theory Spec2Isabelle
  imports Complex_Main "HOL-Library.Sublist" "HOL-Library.Log_Nat"
begin

section \<open>DailyTracker: activities, time arithmetic, date ranges and the weekly summary\<close>

text \<open>
  The development embeds the computational parts of the DailyTracker sources:
  \<^item> \<^verbatim>\<open>src/client/src/lib/utils.ts\<close>: \<^verbatim>\<open>formatMinutes\<close>, \<^verbatim>\<open>timeDifferenceInMinutes\<close>,
    \<^verbatim>\<open>calculateEndTime\<close>, \<^verbatim>\<open>getDateRange\<close>;
  \<^item> \<^verbatim>\<open>src/server/storage.ts\<close>: \<^verbatim>\<open>DatabaseStorage.getActivitiesByProjectTag\<close>;
  \<^item> \<^verbatim>\<open>src/server/routes.ts\<close>: the body of the \<^verbatim>\<open>/api/summary\<close> handler.
\<close>

subsection \<open>JavaScript numbers\<close>

text \<open>
  Every JavaScript number is an IEEE 754 binary64 value, and \<^verbatim>\<open>/\<close> and \<^verbatim>\<open>*\<close> return
  the exact quotient or product rounded to the nearest binary64 value, ties to the even
  significand. A finite binary64 value is a rational, so the model computes in \<open>rat\<close>
  and rounds explicitly.

  \<open>ilog2 q\<close> is the binary exponent of a positive rational (the \<open>e\<close> with
  \<open>2 ^ e \<le> q < 2 ^ (e + 1)\<close>), \<open>ulp q\<close> the spacing of the 53-bit significands at
  that exponent, and \<open>fl q\<close> the multiple of \<open>ulp q\<close> nearest to \<open>q\<close>, the one with
  the even significand of two equally near. The exponent is not bounded: overflow to
  infinity (from \<open>2 ^ 1024\<close>) and gradual underflow (below \<open>2 ^ (- 1022)\<close>) are
  outside the model, and so are NaN and the sign of zero; no quotient or product
  formed below from safe integers reaches those ranges. The integers that enter the
  computations (minute counts and their sums) are taken to be safe integers, of
  magnitude below \<open>2 ^ 53\<close>, on which \<^verbatim>\<open>+\<close> and \<^verbatim>\<open>-\<close> are exact; they are
  modelled as \<open>int\<close>.
\<close>

definition ilog2 :: "rat \<Rightarrow> int" where
  "ilog2 q = (if 1 \<le> q then bitlen \<lfloor>q\<rfloor> - 1 else - bitlen (\<lceil>1 / q\<rceil> - 1))"

definition round_half_even :: "rat \<Rightarrow> int" where
  "round_half_even x =
     (let f = \<lfloor>x\<rfloor>; r = x - of_int f
      in if r < 1 / 2 then f else if 1 / 2 < r then f + 1 else if even f then f else f + 1)"

definition ulp :: "rat \<Rightarrow> rat" where
  "ulp q = 2 powi (ilog2 \<bar>q\<bar> - 52)"

definition fl :: "rat \<Rightarrow> rat" where
  "fl q = (if q = 0 then 0
           else sgn q * of_int (round_half_even (\<bar>q\<bar> / ulp q)) * ulp q)"

text \<open>The operators \<^verbatim>\<open>/\<close> (used with a non-zero divisor only) and \<^verbatim>\<open>*\<close>.\<close>

definition js_div :: "rat \<Rightarrow> rat \<Rightarrow> rat" where
  "js_div a b = fl (a / b)"

definition js_mul :: "rat \<Rightarrow> rat \<Rightarrow> rat" where
  "js_mul a b = fl (a * b)"

text \<open>
  \<^verbatim>\<open>Math.floor\<close>, and \<^verbatim>\<open>Math.round\<close>, which returns the integer nearest to its
  argument and, of two equally near, the one towards \<open>+\<infinity>\<close>. (The result \<open>-0\<close>, which
  JSON renders as \<open>0\<close>, is \<open>0\<close> here.)
\<close>

definition Math_floor :: "rat \<Rightarrow> int" where
  "Math_floor x = \<lfloor>x\<rfloor>"

definition Math_round :: "rat \<Rightarrow> int" where
  "Math_round x = \<lfloor>x + 1 / 2\<rfloor>"

text \<open>
  The remainder operator \<^verbatim>\<open>%\<close> on integers: the result has the sign of the dividend
  (\<^verbatim>\<open>-7 % 60\<close> is \<^verbatim>\<open>-7\<close>). It is used with the divisors 60 and 24 only.
\<close>

definition js_rem :: "int \<Rightarrow> int \<Rightarrow> int" where
  "js_rem a b = sgn a * (\<bar>a\<bar> mod \<bar>b\<bar>)"

subsection \<open>JavaScript strings\<close>

text \<open>
  \<^verbatim>\<open>Number.prototype.toString\<close> on an integer below \<open>10 ^ 21\<close> in magnitude: the decimal
  digits, after a minus sign for a negative one.
\<close>

definition digit_char :: "nat \<Rightarrow> char" where
  "digit_char n = char_of (48 + n)"

fun string_of_nat :: "nat \<Rightarrow> string" where
  "string_of_nat n =
     (if n < 10 then [digit_char n] else string_of_nat (n div 10) @ [digit_char (n mod 10)])"

definition toString :: "int \<Rightarrow> string" where
  "toString i = (if i < 0 then CHR ''-'' # string_of_nat (nat (- i)) else string_of_nat (nat i))"

text \<open>\<^verbatim>\<open>s.padStart(n, c)\<close> with a one-character filler.\<close>

definition padStart :: "nat \<Rightarrow> char \<Rightarrow> string \<Rightarrow> string" where
  "padStart n c s = replicate (n - length s) c @ s"

text \<open>\<^verbatim>\<open>s.split(c)\<close> with a one-character separator: the pieces between the separators.\<close>

fun split :: "char \<Rightarrow> string \<Rightarrow> string list" where
  "split c [] = [[]]"
| "split c (x # xs) =
     (if x = c then [] # split c xs
      else (case split c xs of [] \<Rightarrow> [[x]] | p # ps \<Rightarrow> (x # p) # ps))"

text \<open>
  \<^verbatim>\<open>Number(s)\<close> on a string. A non-empty string of at most 15 ASCII decimal digits
  converts to the number it denotes, exactly (leading zeros allowed: \<^verbatim>\<open>Number("09")\<close>
  is 9). \<open>None\<close> stands for every other string: what JavaScript makes of those
  (\<^verbatim>\<open>NaN\<close>, a rounded number, or a number written with blanks, a sign, a fraction, an
  exponent or a radix prefix) is outside the model, and so is the outcome of the
  functions below on such input.
\<close>

definition is_digit :: "char \<Rightarrow> bool" where
  "is_digit c = (48 \<le> (of_char c :: nat) \<and> (of_char c :: nat) \<le> 57)"

definition digit_value :: "char \<Rightarrow> int" where
  "digit_value c = int (of_char c) - 48"

definition Number :: "string \<Rightarrow> int option" where
  "Number s = (if s \<noteq> [] \<and> length s \<le> 15 \<and> list_all is_digit s
               then Some (foldl (\<lambda>acc c. 10 * acc + digit_value c) 0 s) else None)"

subsection \<open>Time arithmetic (\<^verbatim>\<open>utils.ts\<close>)\<close>

text \<open>
  \<^verbatim>\<open>
  export function formatMinutes(minutes: number): string {
    const hours = Math.floor(minutes / 60);
    const mins = minutes % 60;
    if (hours === 0) { return `${mins}m`; }
    return `${hours}h ${mins}m`;
  }
  \<close>
\<close>

definition formatMinutes :: "int \<Rightarrow> string" where
  "formatMinutes minutes =
     (let hours = Math_floor (js_div (of_int minutes) 60);
          mins = js_rem minutes 60
      in if hours = 0 then toString mins @ ''m''
         else toString hours @ ''h '' @ toString mins @ ''m'')"

text \<open>
  \<^verbatim>\<open>
  export function timeDifferenceInMinutes(startTime: string, endTime: string): number {
    const [startHours, startMinutes] = startTime.split(':').map(Number);
    const [endHours, endMinutes] = endTime.split(':').map(Number);
    let totalMinutes = (endHours * 60 + endMinutes) - (startHours * 60 + startMinutes);
    if (totalMinutes < 0) { totalMinutes += 24 * 60; }
    return totalMinutes;
  }
  \<close>
  The destructuring takes the first two pieces and ignores further ones; with fewer than
  two pieces, or a piece that is not a digit string, the result is outside the model
  (\<open>None\<close>).
\<close>

definition timeDifferenceInMinutes :: "string \<Rightarrow> string \<Rightarrow> int option" where
  "timeDifferenceInMinutes startTime endTime =
     (case (map Number (split CHR '':'' startTime), map Number (split CHR '':'' endTime)) of
        (Some startHours # Some startMinutes # _, Some endHours # Some endMinutes # _) \<Rightarrow>
          (let totalMinutes = (endHours * 60 + endMinutes) - (startHours * 60 + startMinutes)
           in Some (if totalMinutes < 0 then totalMinutes + 24 * 60 else totalMinutes))
      | _ \<Rightarrow> None)"

text \<open>
  \<^verbatim>\<open>
  export function calculateEndTime(startTime: string, durationMinutes: number): string {
    const [hours, minutes] = startTime.split(':').map(Number);
    const totalMinutes = hours * 60 + minutes + durationMinutes;
    const newHours = Math.floor(totalMinutes / 60) % 24;
    const newMinutes = totalMinutes % 60;
    return `${newHours.toString().padStart(2, '0')}:${newMinutes.toString().padStart(2, '0')}`;
  }
  \<close>
\<close>

definition calculateEndTime :: "string \<Rightarrow> int \<Rightarrow> string option" where
  "calculateEndTime startTime durationMinutes =
     (case map Number (split CHR '':'' startTime) of
        Some hours # Some minutes # _ \<Rightarrow>
          (let totalMinutes = hours * 60 + minutes + durationMinutes;
               newHours = js_rem (Math_floor (js_div (of_int totalMinutes) 60)) 24;
               newMinutes = js_rem totalMinutes 60
           in Some (padStart 2 CHR ''0'' (toString newHours) @ '':''
                    @ padStart 2 CHR ''0'' (toString newMinutes)))
      | _ \<Rightarrow> None)"

text \<open>
  A well-formed zero-padded 24-hour time \<^verbatim>\<open>HH:MM\<close>, and the minute of the day it
  denotes.
\<close>

fun wf_time :: "string \<Rightarrow> bool" where
  "wf_time [h1, h0, c, m1, m0] =
     (is_digit h1 \<and> is_digit h0 \<and> c = CHR '':'' \<and> is_digit m1 \<and> is_digit m0
      \<and> 10 * digit_value h1 + digit_value h0 < 24
      \<and> 10 * digit_value m1 + digit_value m0 < 60)"
| "wf_time _ = False"

fun minute_of_day :: "string \<Rightarrow> int" where
  "minute_of_day [h1, h0, c, m1, m0] =
     (10 * digit_value h1 + digit_value h0) * 60 + (10 * digit_value m1 + digit_value m0)"
| "minute_of_day _ = 0"

subsection \<open>JavaScript dates\<close>

text \<open>
  A \<^verbatim>\<open>Date\<close> object holds a time value: the milliseconds since 1970-01-01T00:00Z, or
  \<^verbatim>\<open>NaN\<close> (an invalid date; \<open>None\<close> below). \<^verbatim>\<open>new Date()\<close> reads the system clock,
  and \<^verbatim>\<open>setHours\<close>, \<^verbatim>\<open>getDay\<close>, \<^verbatim>\<open>getDate\<close>, \<^verbatim>\<open>setDate\<close>, \<^verbatim>\<open>getFullYear\<close>,
  \<^verbatim>\<open>getMonth\<close> and \<^verbatim>\<open>new Date(y, m, d)\<close> work in the local time of the host, while
  \<^verbatim>\<open>toISOString\<close> prints UTC. The inputs that the program does not get from its
  caller are the fields of \<open>Clock\<close>: the reading of the system clock, and the time
  zone of the host. A zone is the offset of local time from UTC in force before its
  first transition (\<open>initialOffset\<close>, in minutes, positive east of Greenwich) and its
  transitions in ascending order, each the instant (a time value) from which a new
  offset is in force; daylight-saving time is a pair of transitions a year. A zone
  without transitions keeps one offset.
\<close>

record Clock =
  now :: int
  initialOffset :: int
  transitions :: "(int \<times> int) list"

datatype js_error = RangeError

definition msPerDay :: int where
  "msPerDay = 86400000"

definition TimeClip :: "int \<Rightarrow> int option" where
  "TimeClip t = (if \<bar>t\<bar> \<le> 8640000000000000 then Some t else None)"

text \<open>
  The offset in force at an instant: that of the last transition at or before it.
\<close>

fun offset_at :: "int \<Rightarrow> (int \<times> int) list \<Rightarrow> int \<Rightarrow> int" where
  "offset_at cur [] t = cur"
| "offset_at cur ((s, off) # rest) t = (if t < s then cur else offset_at off rest t)"

text \<open>
  The offset by which a local time is read. A local time that the clocks show twice
  (after a transition to a smaller offset) or never (skipped at a transition to a larger
  offset) is read with the offset before the transition. \<open>offset_for_local_from\<close> walks
  the periods in order: \<open>cur\<close> is the offset of the period that starts at \<open>start\<close>,
  \<open>prev\<close> the offset of the period before it.
\<close>

fun offset_for_local_from :: "int \<Rightarrow> int \<Rightarrow> int \<Rightarrow> (int \<times> int) list \<Rightarrow> int \<Rightarrow> int" where
  "offset_for_local_from prev start cur [] l =
     (if start \<le> l - cur * 60000 then cur else prev)"
| "offset_for_local_from prev start cur ((s, off) # rest) l =
     (if l - cur * 60000 < s then (if start \<le> l - cur * 60000 then cur else prev)
      else offset_for_local_from cur s off rest l)"

definition offset_for_local :: "int \<Rightarrow> (int \<times> int) list \<Rightarrow> int \<Rightarrow> int" where
  "offset_for_local cur trs l =
     (case trs of
        [] \<Rightarrow> cur
      | (s, off) # rest \<Rightarrow>
          if l - cur * 60000 < s then cur else offset_for_local_from cur s off rest l)"

text \<open>
  \<open>LocalTZA z t isUTC\<close> is the offset in milliseconds: at the instant \<open>t\<close> when
  \<open>isUTC\<close>, and for the local time \<open>t\<close> otherwise. \<open>LocalTime\<close> turns an instant into
  local time and \<open>UTC\<close> a local time into an instant.
\<close>

definition LocalTZA :: "Clock \<Rightarrow> int \<Rightarrow> bool \<Rightarrow> int" where
  "LocalTZA z t isUTC =
     (if isUTC then offset_at (initialOffset z) (transitions z) t
      else offset_for_local (initialOffset z) (transitions z) t) * 60000"

definition LocalTime :: "Clock \<Rightarrow> int \<Rightarrow> int" where
  "LocalTime z t = t + LocalTZA z t True"

definition UTC :: "Clock \<Rightarrow> int \<Rightarrow> int" where
  "UTC z t = t - LocalTZA z t False"

definition Day :: "int \<Rightarrow> int" where
  "Day t = t div msPerDay"

definition TimeWithinDay :: "int \<Rightarrow> int" where
  "TimeWithinDay t = t mod msPerDay"

definition WeekDay :: "int \<Rightarrow> int" where
  "WeekDay t = (Day t + 4) mod 7"

text \<open>
  The proleptic Gregorian calendar: the year, month (1 to 12) and day of the month of a
  day number (days since 1970-01-01), and the day number of a year, month and day,
  computed over 400-year eras that start on 1 March.
\<close>

definition civil_from_days :: "int \<Rightarrow> int \<times> int \<times> int" where
  "civil_from_days z =
     (let z' = z + 719468;
          era = z' div 146097;
          doe = z' - era * 146097;
          yoe = (doe - doe div 1460 + doe div 36524 - doe div 146096) div 365;
          doy = doe - (365 * yoe + yoe div 4 - yoe div 100);
          mp = (5 * doy + 2) div 153;
          d = doy - (153 * mp + 2) div 5 + 1;
          m = (if mp < 10 then mp + 3 else mp - 9);
          y = yoe + era * 400
      in (if m \<le> 2 then y + 1 else y, m, d))"

definition days_from_civil :: "int \<Rightarrow> int \<Rightarrow> int \<Rightarrow> int" where
  "days_from_civil y m d =
     (let y' = (if m \<le> 2 then y - 1 else y);
          era = y' div 400;
          yoe = y' - era * 400;
          doy = (153 * (if m > 2 then m - 3 else m + 9) + 2) div 5 + d - 1;
          doe = yoe * 365 + yoe div 4 - yoe div 100 + doy
      in era * 146097 + doe - 719468)"

definition YearFromTime :: "int \<Rightarrow> int" where
  "YearFromTime t = fst (civil_from_days (Day t))"

definition MonthFromTime :: "int \<Rightarrow> int" where
  "MonthFromTime t = fst (snd (civil_from_days (Day t))) - 1"

definition DateFromTime :: "int \<Rightarrow> int" where
  "DateFromTime t = snd (snd (civil_from_days (Day t)))"

text \<open>
  The methods, on a valid time value. \<^verbatim>\<open>setHours(0, 0, 0, 0)\<close> moves to the local
  midnight of the local day. \<^verbatim>\<open>setDate(dt)\<close> moves to day \<open>dt\<close> of the local month,
  counted from its first day (which is \<open>DateFromTime - 1\<close> days before the local day) and
  running over into the neighbouring months when \<open>dt\<close> is not a day of the month; the
  local time of day stays. Both turn the local time they arrive at into an instant with
  the offset that the zone has for that local time, and clip the result to the range of
  time values.
\<close>

definition setHours0 :: "Clock \<Rightarrow> int \<Rightarrow> int option" where
  "setHours0 z t = TimeClip (UTC z (Day (LocalTime z t) * msPerDay))"

definition getDay :: "Clock \<Rightarrow> int \<Rightarrow> int" where
  "getDay z t = WeekDay (LocalTime z t)"

definition getDate :: "Clock \<Rightarrow> int \<Rightarrow> int" where
  "getDate z t = DateFromTime (LocalTime z t)"

definition getFullYear :: "Clock \<Rightarrow> int \<Rightarrow> int" where
  "getFullYear z t = YearFromTime (LocalTime z t)"

definition getMonth :: "Clock \<Rightarrow> int \<Rightarrow> int" where
  "getMonth z t = MonthFromTime (LocalTime z t)"

definition setDate :: "Clock \<Rightarrow> int \<Rightarrow> int \<Rightarrow> int option" where
  "setDate z t dt =
     (let l = LocalTime z t
      in TimeClip (UTC z ((Day l - (DateFromTime l - 1) + (dt - 1)) * msPerDay + TimeWithinDay l)))"

text \<open>
  \<^verbatim>\<open>new Date(year, month, 1)\<close>: the local midnight of the first day of the month; a
  year from 0 to 99 is read as 1900 plus that year.
\<close>

definition new_Date_ym1 :: "Clock \<Rightarrow> int \<Rightarrow> int \<Rightarrow> int option" where
  "new_Date_ym1 z year month =
     (let yr = (if 0 \<le> year \<and> year \<le> 99 then 1900 + year else year);
          ym = yr + month div 12;
          mn = month mod 12
      in TimeClip (UTC z (days_from_civil ym (mn + 1) 1 * msPerDay)))"

text \<open>
  \<^verbatim>\<open>d.toISOString().split('T')[0]\<close>: the UTC calendar date of the time value, as
  \<^verbatim>\<open>YYYY-MM-DD\<close> (with a sign and six digits for a year outside 0 to 9999);
  \<^verbatim>\<open>toISOString\<close> throws \<^verbatim>\<open>RangeError\<close> on an invalid date.
\<close>

definition year_string :: "int \<Rightarrow> string" where
  "year_string y =
     (if 0 \<le> y \<and> y \<le> 9999 then padStart 4 CHR ''0'' (toString y)
      else (if y < 0 then CHR ''-'' else CHR ''+'') # padStart 6 CHR ''0'' (toString \<bar>y\<bar>))"

definition iso_date_of_day :: "int \<Rightarrow> string" where
  "iso_date_of_day n =
     (case civil_from_days n of
        (y, m, d) \<Rightarrow> year_string y @ ''-'' @ padStart 2 CHR ''0'' (toString m)
                      @ ''-'' @ padStart 2 CHR ''0'' (toString d))"

definition toISODate :: "int option \<Rightarrow> js_error + string" where
  "toISODate d = (case d of None \<Rightarrow> Inl RangeError | Some t \<Rightarrow> Inr (iso_date_of_day (Day t)))"

subsection \<open>The date-range resolver (\<^verbatim>\<open>utils.ts\<close>)\<close>

text \<open>
  \<^verbatim>\<open>
  export function getTodayDate(): string {
    return new Date().toISOString().split('T')[0];
  }
  \<close>
\<close>

definition getTodayDate :: "Clock \<Rightarrow> js_error + string" where
  "getTodayDate z = toISODate (Some (now z))"

record DateRange =
  startDate :: string
  endDate :: string

text \<open>
  \<^verbatim>\<open>
  export function getDateRange(filter: string): { startDate: string, endDate: string } {
    const today = new Date();
    today.setHours(0, 0, 0, 0);
    const todayStr = today.toISOString().split('T')[0];
    if (filter === 'today') { return { startDate: todayStr, endDate: todayStr }; }
    if (filter === 'yesterday') {
      const yesterday = new Date(today);
      yesterday.setDate(yesterday.getDate() - 1);
      const yesterdayStr = yesterday.toISOString().split('T')[0];
      return { startDate: yesterdayStr, endDate: yesterdayStr };
    }
    if (filter === 'thisWeek') {
      const startOfWeek = new Date(today);
      const dayOfWeek = today.getDay(); // 0 is Sunday, 6 is Saturday
      startOfWeek.setDate(today.getDate() - dayOfWeek);
      return { startDate: startOfWeek.toISOString().split('T')[0], endDate: todayStr };
    }
    if (filter === 'lastWeek') {
      const endOfLastWeek = new Date(today);
      const dayOfWeek = today.getDay(); // 0 is Sunday, 6 is Saturday
      endOfLastWeek.setDate(today.getDate() - dayOfWeek - 1);
      const startOfLastWeek = new Date(endOfLastWeek);
      startOfLastWeek.setDate(endOfLastWeek.getDate() - 6);
      return { startDate: startOfLastWeek.toISOString().split('T')[0],
               endDate: endOfLastWeek.toISOString().split('T')[0] };
    }
    if (filter === 'thisMonth') {
      const startOfMonth = new Date(today.getFullYear(), today.getMonth(), 1);
      return { startDate: startOfMonth.toISOString().split('T')[0], endDate: todayStr };
    }
    // Default to all time (last 30 days)
    const thirtyDaysAgo = new Date(today);
    thirtyDaysAgo.setDate(today.getDate() - 30);
    return { startDate: thirtyDaysAgo.toISOString().split('T')[0], endDate: todayStr };
  }
  \<close>
  The function takes the filter only (\<open>filter'\<close> below); the clock and the zone come
  from the host. Once
  \<^verbatim>\<open>todayStr\<close> has been computed, \<^verbatim>\<open>today\<close> is a valid date (or \<^verbatim>\<open>RangeError\<close> was
  thrown), so the getters below are applied to time values.
\<close>

definition range_from :: "js_error + string \<Rightarrow> js_error + string \<Rightarrow> js_error + DateRange" where
  "range_from s e =
     (case s of Inl err \<Rightarrow> Inl err
      | Inr a \<Rightarrow> (case e of Inl err \<Rightarrow> Inl err
                  | Inr b \<Rightarrow> Inr \<lparr>startDate = a, endDate = b\<rparr>))"

definition getDateRange :: "Clock \<Rightarrow> string \<Rightarrow> js_error + DateRange" where
  "getDateRange z filter' =
     (case setHours0 z (now z) of
        None \<Rightarrow> Inl RangeError
      | Some today \<Rightarrow>
          (let todayStr = toISODate (Some today) in
           if filter' = ''today'' then range_from todayStr todayStr
           else if filter' = ''yesterday'' then
             (let yesterdayStr = toISODate (setDate z today (getDate z today - 1))
              in range_from yesterdayStr yesterdayStr)
           else if filter' = ''thisWeek'' then
             (let dayOfWeek = getDay z today;
                  startOfWeek = setDate z today (getDate z today - dayOfWeek)
              in range_from (toISODate startOfWeek) todayStr)
           else if filter' = ''lastWeek'' then
             (let dayOfWeek = getDay z today;
                  endOfLastWeek = setDate z today (getDate z today - dayOfWeek - 1);
                  startOfLastWeek =
                    (case endOfLastWeek of None \<Rightarrow> None
                     | Some e \<Rightarrow> setDate z e (getDate z e - 6))
              in range_from (toISODate startOfLastWeek) (toISODate endOfLastWeek))
           else if filter' = ''thisMonth'' then
             (let startOfMonth = new_Date_ym1 z (getFullYear z today) (getMonth z today)
              in range_from (toISODate startOfMonth) todayStr)
           else
             (let thirtyDaysAgo = setDate z today (getDate z today - 30)
              in range_from (toISODate thirtyDaysAgo) todayStr)))"

subsection \<open>The activity record\<close>

text \<open>
  An \<^verbatim>\<open>Activity\<close> row as the handlers read it. The columns \<^verbatim>\<open>durationMinutes\<close> and
  \<^verbatim>\<open>id\<close> (here \<open>id_number\<close>) are integer columns, \<^verbatim>\<open>projectTags\<close> is a text array, \<^verbatim>\<open>endTime\<close> is
  nullable, \<^verbatim>\<open>createdAt\<close> is a timestamp (milliseconds since the epoch here).
\<close>

record Activity =
  id_number :: int
  description :: string
  date :: string
  startTime :: string
  endTime :: "string option"
  durationMinutes :: int
  projectTags :: "string list"
  createdAt :: int

subsection \<open>Filtering by project tag (\<^verbatim>\<open>storage.ts\<close>)\<close>

text \<open>
  \<^verbatim>\<open>Array.prototype.includes\<close> walks the array from index 0 and compares with
  SameValueZero, which on two strings is equality of their code-unit sequences (so it is
  case-sensitive). \<^verbatim>\<open>Array.prototype.filter\<close> walks the array from index 0 and appends
  the elements the callback accepts to a fresh array.
\<close>

fun includes_array :: "'a list \<Rightarrow> 'a \<Rightarrow> bool" where
  "includes_array [] v = False"
| "includes_array (x # xs) v = (if x = v then True else includes_array xs v)"

fun filter_array :: "('a \<Rightarrow> bool) \<Rightarrow> 'a list \<Rightarrow> 'a list" where
  "filter_array p [] = []"
| "filter_array p (x # xs) = (if p x then x # filter_array p xs else filter_array p xs)"

text \<open>
  \<^verbatim>\<open>getActivitiesByProjectTag\<close> awaits \<^verbatim>\<open>getAllActivities()\<close> (a database query, outside
  the embedding) and filters its result; the first argument is the array that query
  resolved to.
\<close>

definition getActivitiesByProjectTag :: "Activity list \<Rightarrow> string \<Rightarrow> Activity list" where
  "getActivitiesByProjectTag allActivities tagName =
     filter_array (\<lambda>activity. includes_array (projectTags activity) tagName) allActivities"

subsection \<open>The weekly summary (\<^verbatim>\<open>routes.ts\<close>, handler of \<^verbatim>\<open>/api/summary\<close>)\<close>

text \<open>
  The handler fetches three arrays from the storage (today's, yesterday's and the
  week's activities) and computes the summary from them; the arrays are the arguments
  of the model.

  \<^verbatim>\<open>activities.reduce((sum, activity) => sum + activity.durationMinutes, 0)\<close>:
\<close>

definition sumDurations :: "Activity list \<Rightarrow> int" where
  "sumDurations activities = foldl (\<lambda>sum activity. sum + durationMinutes activity) 0 activities"

text \<open>
  \<^verbatim>\<open>
  const formatTime = (minutes: number) => {
    const hours = Math.floor(minutes / 60);
    const mins = minutes % 60;
    return `${hours}h ${mins}m`;
  };
  \<close>
\<close>

definition formatTime :: "int \<Rightarrow> string" where
  "formatTime minutes =
     (let hours = Math_floor (js_div (of_int minutes) 60);
          mins = js_rem minutes 60
      in toString hours @ ''h '' @ toString mins @ ''m'')"

text \<open>
  \<^verbatim>\<open>
  const weekTargetMinutes = 1440; // 24 hours
  const weekProgress = Math.min(Math.round((weekMinutes / weekTargetMinutes) * 100), 100);
  \<close>
\<close>

definition weekTargetMinutes :: int where
  "weekTargetMinutes = 1440"

definition weekProgress :: "int \<Rightarrow> int" where
  "weekProgress weekMinutes =
     min (Math_round (js_mul (js_div (of_int weekMinutes) (of_int weekTargetMinutes)) 100)) 100"

text \<open>
  A \<^verbatim>\<open>Map<string, number>\<close> keeps its entries in the order in which their keys were
  first set; \<^verbatim>\<open>set\<close> on a key that is present replaces the value in place.
  \<^verbatim>\<open>m.get(k) || 0\<close> is the stored value, and 0 when there is none (or when it is 0).
\<close>

type_synonym js_map = "(string \<times> int) list"

fun map_get :: "js_map \<Rightarrow> string \<Rightarrow> int option" where
  "map_get [] k = None"
| "map_get ((k', v) # m) k = (if k' = k then Some v else map_get m k)"

fun map_set :: "js_map \<Rightarrow> string \<Rightarrow> int \<Rightarrow> js_map" where
  "map_set [] k v = [(k, v)]"
| "map_set ((k', v') # m) k v = (if k' = k then (k, v) # m else (k', v') # map_set m k v)"

definition or_zero :: "int option \<Rightarrow> int" where
  "or_zero x = (case x of None \<Rightarrow> 0 | Some v \<Rightarrow> if v = 0 then 0 else v)"

text \<open>
  \<^verbatim>\<open>
  const projectMinutes = new Map<string, number>();
  for (const activity of weekActivities) {
    for (const tag of activity.projectTags) {
      const minutes = projectMinutes.get(tag) || 0;
      projectMinutes.set(tag, minutes + activity.durationMinutes);
    }
  }
  \<close>
\<close>

fun tag_loop :: "js_map \<Rightarrow> int \<Rightarrow> string list \<Rightarrow> js_map" where
  "tag_loop pm duration [] = pm"
| "tag_loop pm duration (tag # tags) =
     (let minutes = or_zero (map_get pm tag)
      in tag_loop (map_set pm tag (minutes + duration)) duration tags)"

fun activity_loop :: "js_map \<Rightarrow> Activity list \<Rightarrow> js_map" where
  "activity_loop pm [] = pm"
| "activity_loop pm (activity # rest) =
     activity_loop (tag_loop pm (durationMinutes activity) (projectTags activity)) rest"

definition projectMinutes :: "Activity list \<Rightarrow> js_map" where
  "projectMinutes weekActivities = activity_loop [] weekActivities"

text \<open>
  \<^verbatim>\<open>
  let topProject = { name: "None", minutes: 0, percentage: 0 };
  if (projectMinutes.size > 0) {
    let maxMinutes = 0;
    let maxProject = "";
    for (const [project, minutes] of projectMinutes.entries()) {
      if (minutes > maxMinutes) { maxMinutes = minutes; maxProject = project; }
    }
    const percentage = weekMinutes > 0 ? Math.round((maxMinutes / weekMinutes) * 100) : 0;
    topProject = { name: maxProject, minutes: maxMinutes, percentage };
  }
  \<close>
  The state of the inner loop is the pair \<open>(maxMinutes, maxProject)\<close>.
\<close>

record TopProject =
  name :: string
  minutes :: int
  percentage :: int

fun max_loop :: "js_map \<Rightarrow> int \<times> string \<Rightarrow> int \<times> string" where
  "max_loop [] st = st"
| "max_loop ((project, mins) # entries) (maxMinutes, maxProject) =
     max_loop entries
       (if mins > maxMinutes then (mins, project) else (maxMinutes, maxProject))"

definition topProject_of :: "Activity list \<Rightarrow> TopProject" where
  "topProject_of weekActivities =
     (let weekMinutes = sumDurations weekActivities;
          pm = projectMinutes weekActivities
      in if length pm > 0 then
           (case max_loop pm (0, '''') of
              (maxMinutes, maxProject) \<Rightarrow>
                \<lparr>name = maxProject, minutes = maxMinutes,
                 percentage =
                   (if weekMinutes > 0
                    then Math_round (js_mul (js_div (of_int maxMinutes) (of_int weekMinutes)) 100)
                    else 0)\<rparr>)
         else \<lparr>name = ''None'', minutes = 0, percentage = 0\<rparr>)"

text \<open>
  \<^verbatim>\<open>
  comparedToYesterday: yesterdayMinutes > 0
    ? Math.round((todayMinutes - yesterdayMinutes) / yesterdayMinutes * 100)
    : 0
  \<close>
\<close>

definition comparedToYesterday_of :: "int \<Rightarrow> int \<Rightarrow> int" where
  "comparedToYesterday_of todayMinutes yesterdayMinutes =
     (if yesterdayMinutes > 0
      then Math_round (js_mul (js_div (of_int (todayMinutes - yesterdayMinutes))
                                      (of_int yesterdayMinutes)) 100)
      else 0)"

text \<open>
  \<^verbatim>\<open>
  const summary = {
    today: { totalTime: formatTime(todayMinutes), totalMinutes: todayMinutes,
             comparedToYesterday: ... },
    week: { totalTime: formatTime(weekMinutes), totalMinutes: weekMinutes,
            target: formatTime(weekTargetMinutes), progress: weekProgress },
    topProject: { name: topProject.name, time: formatTime(topProject.minutes),
                  percentage: topProject.percentage }
  };
  \<close>
\<close>

record TodaySummary =
  totalTime :: string
  totalMinutes :: int
  comparedToYesterday :: int

record WeekSummary =
  totalTime :: string
  totalMinutes :: int
  target :: string
  progress :: int

record TopProjectSummary =
  name :: string
  time :: string
  percentage :: int

record Summary =
  today :: TodaySummary
  week :: WeekSummary
  topProject :: TopProjectSummary

definition summary :: "Activity list \<Rightarrow> Activity list \<Rightarrow> Activity list \<Rightarrow> Summary" where
  "summary todayActivities yesterdayActivities weekActivities =
     (let todayMinutes = sumDurations todayActivities;
          yesterdayMinutes = sumDurations yesterdayActivities;
          weekMinutes = sumDurations weekActivities;
          top = topProject_of weekActivities
      in \<lparr>today = \<lparr>TodaySummary.totalTime = formatTime todayMinutes,
                    TodaySummary.totalMinutes = todayMinutes,
                    comparedToYesterday = comparedToYesterday_of todayMinutes yesterdayMinutes\<rparr>,
          week = \<lparr>WeekSummary.totalTime = formatTime weekMinutes,
                   WeekSummary.totalMinutes = weekMinutes,
                   target = formatTime weekTargetMinutes,
                   progress = weekProgress weekMinutes\<rparr>,
          topProject = \<lparr>TopProjectSummary.name = TopProject.name top,
                         time = formatTime (TopProject.minutes top),
                         TopProjectSummary.percentage = TopProject.percentage top\<rparr>\<rparr>)"

text \<open>Three rows used as concrete inputs below.\<close>

definition row1 :: Activity where
  "row1 = \<lparr>id_number = 1, description = ''write report'', date = ''2024-01-01'',
            startTime = ''09:00'', endTime = Some ''10:00'', durationMinutes = 60,
            projectTags = [''A''], createdAt = 0\<rparr>"

definition row2 :: Activity where
  "row2 = \<lparr>id_number = 2, description = ''review'', date = ''2024-01-01'',
            startTime = ''10:00'', endTime = None, durationMinutes = 30,
            projectTags = [''A'', ''B''], createdAt = 0\<rparr>"

definition row3 :: Activity where
  "row3 = \<lparr>id_number = 3, description = ''call'', date = ''2023-12-31'',
            startTime = ''08:00'', endTime = None, durationMinutes = 15,
            projectTags = [''b''], createdAt = 0\<rparr>"

subsection \<open>Reference formulas and concrete inputs\<close>

text \<open>
  The ratios of the summary as the formulas read in exact arithmetic: the quotient is the
  rational number, and \<open>round\<close> is the nearest integer, the upper one of two equally
  near. They are what the results of the code are compared with.
\<close>

definition percentDelta_exact :: "int \<Rightarrow> int \<Rightarrow> int" where
  "percentDelta_exact current previous =
     (if previous > 0 then round (of_int (current - previous) / of_int previous * 100 :: rat) else 0)"

definition weekProgress_exact :: "int \<Rightarrow> int" where
  "weekProgress_exact weekMinutes = min (round (of_int weekMinutes / 1440 * 100 :: rat)) 100"

text \<open>
  The distinct elements of a sequence in the order of their first occurrence, after those
  already seen.
\<close>

fun first_seen :: "'a list \<Rightarrow> 'a list \<Rightarrow> 'a list" where
  "first_seen seen [] = seen"
| "first_seen seen (x # xs) = first_seen (if x \<in> set seen then seen else seen @ [x]) xs"

text \<open>
  Further rows: half an hour of work, a start/stop entry whose end equals its start
  (\<^verbatim>\<open>timeDifferenceInMinutes\<close> gives it the duration 0), and a row that lists a tag
  twice.
\<close>

definition row_half_hour :: Activity where
  "row_half_hour = \<lparr>id_number = 4, description = ''stand-up'', date = ''2024-01-02'',
            startTime = ''09:00'', endTime = Some ''09:30'', durationMinutes = 30,
            projectTags = [''A''], createdAt = 0\<rparr>"

definition row_zero :: Activity where
  "row_zero = \<lparr>id_number = 5, description = ''note'', date = ''2024-01-02'',
            startTime = ''09:00'', endTime = Some ''09:00'', durationMinutes = 0,
            projectTags = [''A''], createdAt = 0\<rparr>"

definition row_dup :: Activity where
  "row_dup = \<lparr>id_number = 6, description = ''pairing'', date = ''2024-01-02'',
            startTime = ''11:00'', endTime = None, durationMinutes = 60,
            projectTags = [''A'', ''A''], createdAt = 0\<rparr>"

text \<open>
  The transitions of 2024 in Rome and in London: daylight-saving time starts on
  2024-03-31 at 01:00 UTC and ends on 2024-10-27 at 01:00 UTC.
\<close>

definition rome_2024 :: "(int \<times> int) list" where
  "rome_2024 = [(1711846800000, 120), (1729990800000, 60)]"

definition london_2024 :: "(int \<times> int) list" where
  "london_2024 = [(1711846800000, 60), (1729990800000, 0)]"

text \<open>
  Clock readings. In Rome: Wednesday 2024-01-10 at 11:00 UTC, which is noon there, and
  noon on the next day; the first of these instants read in a zone fixed at UTC. In
  London: Sunday 2024-03-31 at 00:30 UTC, half an hour before the clocks go forward, and
  at 12:00 UTC, which is 13:00 summer time on the same local day; and Wednesday
  2024-04-03 at 11:00 UTC, which is noon summer time, in the week after the change.
\<close>

definition noon_in_rome :: Clock where
  "noon_in_rome = \<lparr>now = 1704884400000, initialOffset = 60, transitions = rome_2024\<rparr>"

definition noon_in_rome_next_day :: Clock where
  "noon_in_rome_next_day =
     \<lparr>now = 1704970800000, initialOffset = 60, transitions = rome_2024\<rparr>"

definition same_instant_in_utc :: Clock where
  "same_instant_in_utc = \<lparr>now = 1704884400000, initialOffset = 0, transitions = []\<rparr>"

definition london_before_change :: Clock where
  "london_before_change =
     \<lparr>now = 1711845000000, initialOffset = 0, transitions = london_2024\<rparr>"

definition london_after_change :: Clock where
  "london_after_change =
     \<lparr>now = 1711886400000, initialOffset = 0, transitions = london_2024\<rparr>"

definition london_week_after_change :: Clock where
  "london_week_after_change =
     \<lparr>now = 1712142000000, initialOffset = 0, transitions = london_2024\<rparr>"

section \<open>Facts about the model\<close>

subsection \<open>Rounding to binary64\<close>

text \<open>
  The binary exponent brackets its argument, rounding is monotone, exact on the safe
  integers, and the floor of a rounded quotient of safe integers is the integer quotient.
\<close>

lemma ilog2_ge1:
  assumes "1 \<le> q"
  shows "2 powi (ilog2 q) \<le> q" and "q < 2 powi (ilog2 q + 1)"
proof -
  define n where "n = \<lfloor>q\<rfloor>"
  have n1: "1 \<le> n" using assms by (simp add: n_def)
  have e: "ilog2 q = bitlen n - 1" using assms by (simp add: ilog2_def n_def)
  have b1: "1 \<le> bitlen n" using n1 by (simp add: bitlen_alt_def)
  have bb: "2 ^ nat (bitlen n - 1) \<le> n" "n < 2 ^ nat (bitlen n)"
    using bitlen_bounds [of n] n1 by auto
  have "2 powi (ilog2 q) = (2::rat) ^ nat (bitlen n - 1)"
    using b1 by (simp add: e power_int_def)
  also have "\<dots> = of_int (2 ^ nat (bitlen n - 1))" by simp
  also have "\<dots> \<le> of_int n" using bb(1) by (simp only: of_int_le_iff)
  also have "\<dots> \<le> q" by (simp add: n_def)
  finally show "2 powi (ilog2 q) \<le> q" .
  have s: "n + 1 \<le> 2 ^ nat (bitlen n)" using bb(2) by simp
  have "q < of_int (n + 1)" unfolding n_def by linarith
  also have "\<dots> \<le> of_int (2 ^ nat (bitlen n))" using s by (simp only: of_int_le_iff)
  also have "\<dots> = 2 powi (ilog2 q + 1)" using b1 by (simp add: e power_int_def)
  finally show "q < 2 powi (ilog2 q + 1)" .
qed

lemma ilog2_lt1:
  assumes "0 < q" "q < 1"
  shows "2 powi (ilog2 q) \<le> q" and "q < 2 powi (ilog2 q + 1)"
proof -
  define n where "n = \<lceil>1 / q\<rceil> - 1"
  have iq: "1 < 1 / q" using assms by simp
  have n1: "1 \<le> n" using iq unfolding n_def by linarith
  have nq: "of_int n < 1 / q" "1 / q \<le> of_int n + 1"
    unfolding n_def by linarith+
  have e: "ilog2 q = - bitlen n" using assms by (simp add: ilog2_def n_def)
  have b1: "1 \<le> bitlen n" using n1 by (simp add: bitlen_alt_def)
  have bb: "2 ^ nat (bitlen n - 1) \<le> n" "n < 2 ^ nat (bitlen n)"
    using bitlen_bounds [of n] n1 by auto
  have s: "n + 1 \<le> 2 ^ nat (bitlen n)" using bb(2) by simp
  have "1 / q \<le> of_int (n + 1)" using nq by simp
  also have "\<dots> \<le> of_int (2 ^ nat (bitlen n))" using s by (simp only: of_int_le_iff)
  also have "\<dots> = 2 ^ nat (bitlen n)" by simp
  finally have "1 / q \<le> 2 ^ nat (bitlen n)" .
  then have "1 / 2 ^ nat (bitlen n) \<le> q"
    using assms by (simp add: field_simps)
  moreover have "2 powi (ilog2 q) = 1 / (2::rat) ^ nat (bitlen n)"
    using b1 by (simp add: e power_int_def inverse_eq_divide power_one_over)
  ultimately show "2 powi (ilog2 q) \<le> q" by simp
  have "(2::rat) ^ nat (bitlen n - 1) = of_int (2 ^ nat (bitlen n - 1))" by simp
  also have "\<dots> \<le> of_int n" using bb(1) by (simp only: of_int_le_iff)
  also have "\<dots> < 1 / q" by (rule nq)
  finally have "(2::rat) ^ nat (bitlen n - 1) < 1 / q" .
  then have "q < 1 / 2 ^ nat (bitlen n - 1)"
    using assms by (simp add: field_simps)
  moreover have "2 powi (ilog2 q + 1) = 1 / (2::rat) ^ nat (bitlen n - 1)"
  proof -
    have "(2::rat) powi (bitlen n - 1) = 2 ^ nat (bitlen n - 1)"
      using b1 by (simp add: power_int_def)
    moreover have "(2::rat) powi (- bitlen n + 1) = inverse (2 powi (bitlen n - 1))"
      using power_int_minus [of "2::rat" "bitlen n - 1"] by simp
    ultimately show ?thesis by (simp add: e inverse_eq_divide)
  qed
  ultimately show "q < 2 powi (ilog2 q + 1)" by simp
qed

lemma ilog2_bounds:
  assumes "0 < q"
  shows "2 powi (ilog2 q) \<le> q" and "q < 2 powi (ilog2 q + 1)"
  using assms ilog2_ge1 [of q] ilog2_lt1 [of q] by (cases "1 \<le> q"; simp)+

lemma ilog2_unique:
  assumes "2 powi e \<le> q" "q < 2 powi (e + 1)"
  shows "ilog2 q = e"
proof -
  have q0: "0 < q"
  proof -
    have "(0::rat) < 2 powi e" by simp
    then show ?thesis using assms(1) by linarith
  qed
  note b = ilog2_bounds [OF q0]
  have "(2::rat) powi e < 2 powi (ilog2 q + 1)" using assms(1) b(2) by linarith
  then have 1: "e < ilog2 q + 1"
    by (metis not_less power_int_increasing one_le_numeral)
  have "(2::rat) powi (ilog2 q) < 2 powi (e + 1)" using assms(2) b(1) by linarith
  then have 2: "ilog2 q < e + 1"
    by (metis not_less power_int_increasing one_le_numeral)
  from 1 2 show ?thesis by simp
qed

lemma ilog2_mono:
  assumes "0 < q" "q \<le> r"
  shows "ilog2 q \<le> ilog2 r"
proof -
  have r0: "0 < r" using assms by simp
  have "(2::rat) powi (ilog2 q) < 2 powi (ilog2 r + 1)"
    using ilog2_bounds(1) [OF assms(1)] ilog2_bounds(2) [OF r0] assms(2) by linarith
  then have "ilog2 q < ilog2 r + 1"
    by (metis not_less power_int_increasing one_le_numeral)
  then show ?thesis by simp
qed

lemma round_half_even_cases:
  "round_half_even x = \<lfloor>x\<rfloor> \<or> round_half_even x = \<lfloor>x\<rfloor> + 1"
  by (simp add: round_half_even_def Let_def)

lemma round_half_even_of_int [simp]: "round_half_even (of_int n) = n"
  by (simp add: round_half_even_def)

lemma round_half_even_near:
  "of_int (round_half_even x) \<le> x + 1 / 2" "x - 1 / 2 \<le> of_int (round_half_even x)"
  unfolding round_half_even_def Let_def by (auto; linarith)+

lemma round_half_even_mono:
  assumes "x \<le> y"
  shows "round_half_even x \<le> round_half_even y"
proof (cases "\<lfloor>x\<rfloor> = \<lfloor>y\<rfloor>")
  case True
  then show ?thesis
    using assms unfolding round_half_even_def Let_def by (auto; linarith)
next
  case False
  then have "\<lfloor>x\<rfloor> + 1 \<le> \<lfloor>y\<rfloor>" using floor_mono [OF assms] by linarith
  moreover have "round_half_even x \<le> \<lfloor>x\<rfloor> + 1"
    using round_half_even_cases [of x] by linarith
  moreover have "\<lfloor>y\<rfloor> \<le> round_half_even y"
    using round_half_even_cases [of y] by linarith
  ultimately show ?thesis by linarith
qed


lemma ulp_pos [simp]: "0 < ulp q"
  by (simp add: ulp_def)

lemma ulp_minus [simp]: "ulp (- q) = ulp q"
  by (simp add: ulp_def)

lemma fl_0 [simp]: "fl 0 = 0"
  by (simp add: fl_def)

lemma fl_pos_eq: "0 < q \<Longrightarrow> fl q = of_int (round_half_even (q / ulp q)) * ulp q"
  by (simp add: fl_def)

lemma fl_minus: "fl (- q) = - fl q"
  by (simp add: fl_def sgn_minus)

lemma ulp_scale:
  assumes "0 < q"
  shows "2 powi (ilog2 q) = 2 ^ 52 * ulp q" and "2 powi (ilog2 q + 1) = 2 ^ 53 * ulp q"
proof -
  have "(2::rat) powi (ilog2 q) = 2 powi (52 + (ilog2 q - 52))"
    by (rule arg_cong [where f = "power_int 2"]) simp
  also have "\<dots> = 2 powi 52 * 2 powi (ilog2 q - 52)"
    by (rule power_int_add) simp
  finally show "2 powi (ilog2 q) = 2 ^ 52 * ulp q"
    using assms by (simp add: ulp_def)
  have "(2::rat) powi (ilog2 q + 1) = 2 powi (53 + (ilog2 q - 52))"
    by (rule arg_cong [where f = "power_int 2"]) simp
  also have "\<dots> = 2 powi 53 * 2 powi (ilog2 q - 52)"
    by (rule power_int_add) simp
  finally show "2 powi (ilog2 q + 1) = 2 ^ 53 * ulp q"
    using assms by (simp add: ulp_def)
qed

lemma mantissa_bounds:
  assumes "0 < q"
  shows "2 ^ 52 \<le> q / ulp q" and "q / ulp q < 2 ^ 53"
proof -
  have "2 ^ 52 * ulp q \<le> q" using ilog2_bounds(1) [OF assms] ulp_scale(1) [OF assms] by simp
  then show "2 ^ 52 \<le> q / ulp q" by (simp add: le_divide_eq)
  have "q < 2 ^ 53 * ulp q" using ilog2_bounds(2) [OF assms] ulp_scale(2) [OF assms] by simp
  then show "q / ulp q < 2 ^ 53" by (simp add: divide_less_eq)
qed

lemma round_mantissa_bounds:
  assumes "0 < q"
  shows "2 ^ 52 \<le> round_half_even (q / ulp q)" and "round_half_even (q / ulp q) \<le> 2 ^ 53"
proof -
  have "round_half_even (of_int (2 ^ 52)) \<le> round_half_even (q / ulp q)"
    by (rule round_half_even_mono) (use mantissa_bounds(1) [OF assms] in simp)
  then show "2 ^ 52 \<le> round_half_even (q / ulp q)" by (simp only: round_half_even_of_int)
  have "round_half_even (q / ulp q) \<le> round_half_even (of_int (2 ^ 53))"
    by (rule round_half_even_mono) (use mantissa_bounds(2) [OF assms] in simp)
  then show "round_half_even (q / ulp q) \<le> 2 ^ 53" by (simp only: round_half_even_of_int)
qed

lemma fl_pos_bounds:
  assumes "0 < q"
  shows "2 powi (ilog2 q) \<le> fl q" and "fl q \<le> 2 powi (ilog2 q + 1)"
proof -
  have "(of_int (2 ^ 52) :: rat) \<le> of_int (round_half_even (q / ulp q))"
    using round_mantissa_bounds(1) [OF assms] by (simp only: of_int_le_iff)
  then have "2 ^ 52 * ulp q \<le> of_int (round_half_even (q / ulp q)) * ulp q"
    by (simp add: mult_right_mono)
  then show "2 powi (ilog2 q) \<le> fl q"
    by (simp add: fl_pos_eq [OF assms] ulp_scale(1) [OF assms])
  have "(of_int (round_half_even (q / ulp q)) :: rat) \<le> of_int (2 ^ 53)"
    using round_mantissa_bounds(2) [OF assms] by (simp only: of_int_le_iff)
  then have "of_int (round_half_even (q / ulp q)) * ulp q \<le> 2 ^ 53 * ulp q"
    by (simp add: mult_right_mono)
  then show "fl q \<le> 2 powi (ilog2 q + 1)"
    by (simp add: fl_pos_eq [OF assms] ulp_scale(2) [OF assms])
qed

lemma fl_pos: "0 < q \<Longrightarrow> 0 < fl q"
proof -
  assume q: "0 < q"
  have "(0::rat) < 2 powi (ilog2 q)" by simp
  then show ?thesis using fl_pos_bounds(1) [OF q] by linarith
qed

lemma fl_mono_pos:
  assumes "0 < q" "q \<le> r"
  shows "fl q \<le> fl r"
proof -
  have r: "0 < r" using assms by simp
  have le: "ilog2 q \<le> ilog2 r" by (rule ilog2_mono [OF assms])
  show ?thesis
  proof (cases "ilog2 q = ilog2 r")
    case True
    then have u: "ulp q = ulp r" using assms r by (simp add: ulp_def)
    have "q / ulp r \<le> r / ulp r"
      by (rule divide_right_mono [OF assms(2) less_imp_le [OF ulp_pos]])
    then have "round_half_even (q / ulp r) \<le> round_half_even (r / ulp r)"
      by (rule round_half_even_mono)
    then have "(of_int (round_half_even (q / ulp r)) :: rat) \<le> of_int (round_half_even (r / ulp r))"
      by (simp only: of_int_le_iff)
    then show ?thesis
      by (simp add: fl_pos_eq [OF assms(1)] fl_pos_eq [OF r] u mult_right_mono)
  next
    case False
    then have "ilog2 q + 1 \<le> ilog2 r" using le by simp
    then have "(2::rat) powi (ilog2 q + 1) \<le> 2 powi (ilog2 r)"
      by (rule power_int_increasing) simp
    then show ?thesis
      using fl_pos_bounds(2) [OF assms(1)] fl_pos_bounds(1) [OF r] by linarith
  qed
qed

lemma fl_mono:
  assumes "q \<le> r"
  shows "fl q \<le> fl r"
proof -
  consider "0 < q" | "q = 0" "r = 0" | "q = 0" "0 < r" | "q < 0" "0 < r" | "q < 0" "r = 0"
    | "q < 0" "r < 0"
    using assms by linarith
  then show ?thesis
  proof cases
    case 1
    then show ?thesis using assms by (rule fl_mono_pos)
  next
    case 2
    then show ?thesis by simp
  next
    case 3
    then show ?thesis using fl_pos [of r] by simp
  next
    case 4
    then show ?thesis using fl_pos [of r] fl_pos [of "- q"] fl_minus [of q] by simp
  next
    case 5
    then show ?thesis using fl_pos [of "- q"] fl_minus [of q] by simp
  next
    case 6
    then have "fl (- r) \<le> fl (- q)" using assms by (intro fl_mono_pos) simp_all
    then show ?thesis by (simp add: fl_minus)
  qed
qed

lemma fl_exact:
  assumes "0 < q" "q / ulp q = of_int m"
  shows "fl q = q"
proof -
  have "fl q = of_int m * ulp q" by (simp add: fl_pos_eq [OF assms(1)] assms(2))
  also have "\<dots> = q / ulp q * ulp q" by (simp add: assms(2))
  also have "\<dots> = q"
  proof -
    have "ulp q \<noteq> 0" by (simp add: ulp_def)
    then show ?thesis by simp
  qed
  finally show ?thesis .
qed

lemma ilog2_less_53:
  assumes "0 < q" "q < 2 ^ 53"
  shows "ilog2 q \<le> 52"
proof -
  have "(2::rat) powi (ilog2 q) < 2 powi 53"
    using ilog2_bounds(1) [OF assms(1)] assms(2) by simp
  then have "ilog2 q < 53"
    by (metis not_less power_int_increasing one_le_numeral)
  then show ?thesis by simp
qed

lemma inverse_ulp:
  assumes "0 < q" "q < 2 ^ 53"
  shows "1 / ulp q = of_int (2 ^ nat (52 - ilog2 q))"
proof -
  have e: "ilog2 q \<le> 52" by (rule ilog2_less_53 [OF assms])
  have "ulp q = 2 powi (ilog2 q - 52)" using assms(1) by (simp add: ulp_def)
  then have "1 / ulp q = 2 powi (- (ilog2 q - 52))"
    by (simp only: power_int_minus_divide)
  also have "\<dots> = 2 powi (52 - ilog2 q)"
    by (rule arg_cong [where f = "power_int 2"]) simp
  also have "\<dots> = 2 ^ nat (52 - ilog2 q)" using e by (simp add: power_int_def)
  finally show ?thesis by simp
qed

lemma fl_of_int_pos:
  assumes "0 < n" "n < 2 ^ 53"
  shows "fl (of_int n) = of_int n"
proof -
  have "(of_int n :: rat) < of_int (2 ^ 53)" using assms(2) by (simp only: of_int_less_iff)
  then have q: "0 < (of_int n :: rat)" "(of_int n :: rat) < 2 ^ 53"
    using assms(1) by simp_all
  have "of_int n / ulp (of_int n) = of_int n * (1 / ulp (of_int n))" by simp
  also have "\<dots> = of_int (n * 2 ^ nat (52 - ilog2 (of_int n)))"
    by (simp only: inverse_ulp [OF q] of_int_mult)
  finally show ?thesis by (rule fl_exact [OF q(1)])
qed

lemma fl_of_int:
  assumes "\<bar>n\<bar> < 2 ^ 53"
  shows "fl (of_int n) = of_int n"
proof -
  consider "0 < n" | "n = 0" | "n < 0" by linarith
  then show ?thesis
  proof cases
    case 1
    then show ?thesis using assms by (intro fl_of_int_pos) simp_all
  next
    case 2
    then show ?thesis by simp
  next
    case 3
    then have "fl (of_int (- n)) = of_int (- n)" using assms by (intro fl_of_int_pos) simp_all
    then show ?thesis using fl_minus [of "of_int n"] by simp
  qed
qed


lemma floor_fl_div:
  assumes "0 \<le> a" "a < 2 ^ 53" "0 < b"
  shows "\<lfloor>fl (of_int a / of_int b)\<rfloor> = a div b"
proof (cases "a = 0")
  case True
  then show ?thesis by simp
next
  case False
  define q :: rat where "q = of_int a / of_int b"
  define k where "k = a div b"
  define P :: int where "P = 2 ^ nat (52 - ilog2 q)"
  have a0: "0 < a" using False assms(1) by simp
  have b0: "0 < (of_int b :: rat)" using assms(3) by simp
  have q0: "0 < q" using a0 assms(3) by (simp add: q_def)
  have qb: "q * of_int b = of_int a" using b0 by (simp add: q_def)
  have "(of_int a :: rat) < of_int (2 ^ 53)" using assms(2) by (simp only: of_int_less_iff)
  then have a53: "(of_int a :: rat) < 2 ^ 53" by simp
  have "q * 1 \<le> q * of_int b"
    using q0 assms(3) by (intro mult_left_mono) simp_all
  then have qa: "q \<le> of_int a" using qb by simp
  have q53: "q < 2 ^ 53" using qa a53 by linarith
  have kfl: "k = \<lfloor>q\<rfloor>" by (simp add: k_def q_def floor_divide_of_int_eq)
  have kq: "of_int k \<le> q" by (simp add: kfl)
  have k0: "0 \<le> k" using assms(1,3) by (simp add: k_def pos_imp_zdiv_nonneg_iff)
  have "(of_int k :: rat) \<le> of_int a" using kq qa by linarith
  then have "k \<le> a" by (simp only: of_int_le_iff)
  then have k53: "\<bar>k\<bar> < 2 ^ 53" using k0 assms(2) by simp
  have "fl (of_int k) \<le> fl q" by (rule fl_mono [OF kq])
  then have lower: "of_int k \<le> fl q" by (simp add: fl_of_int [OF k53])
  have "a mod b < b" using assms(3) by simp
  moreover have "a = k * b + a mod b" unfolding k_def by simp
  ultimately have "a + 1 \<le> k * b + b" by linarith
  also have "\<dots> = (k + 1) * b" by (simp add: algebra_simps)
  finally have "a + 1 \<le> (k + 1) * b" .
  then have "(of_int (a + 1) :: rat) \<le> of_int ((k + 1) * b)" by (simp only: of_int_le_iff)
  then have gap: "q * of_int b + 1 \<le> (of_int k + 1) * of_int b" by (simp add: qb)
  have P0: "0 < P" by (simp add: P_def)
  have iu: "1 / ulp q = of_int P" unfolding P_def by (rule inverse_ulp [OF q0 q53])
  then have u: "ulp q = 1 / of_int P" by (metis div_by_1 divide_divide_eq_right mult.left_neutral)
  have "of_int b * (2 ^ 52 * ulp q) \<le> of_int b * q"
    using ilog2_bounds(1) [OF q0] ulp_scale(1) [OF q0] b0 by (simp add: mult_left_mono)
  then have "of_int b * 2 ^ 52 / of_int P < (2 ^ 53 :: rat)"
    using qb a53 by (simp add: u mult.commute)
  then have "(of_int b :: rat) * 2 ^ 52 < 2 ^ 53 * of_int P"
    using P0 by (simp add: divide_less_eq)
  then have bP: "(of_int b :: rat) < 2 * of_int P" by simp
  have "(q * of_int P + 1 / 2) * of_int b = q * of_int b * of_int P + of_int b / 2"
    by (simp add: algebra_simps)
  also have "\<dots> < q * of_int b * of_int P + of_int P" using bP by simp
  also have "\<dots> = (q * of_int b + 1) * of_int P" by (simp add: algebra_simps)
  also have "\<dots> \<le> (of_int k + 1) * of_int b * of_int P"
    using gap P0 by (simp add: mult_right_mono)
  also have "\<dots> = (of_int k + 1) * of_int P * of_int b" by simp
  finally have "q * of_int P + 1 / 2 < (of_int k + 1) * of_int P"
    using b0 by (simp only: mult_less_cancel_right_pos)
  moreover have "q / ulp q = q * of_int P" by (simp add: u)
  ultimately have "of_int (round_half_even (q / ulp q)) < (of_int ((k + 1) * P) :: rat)"
    using round_half_even_near(1) [of "q / ulp q"] by simp
  then have "round_half_even (q / ulp q) < (k + 1) * P" by (simp only: of_int_less_iff)
  then have "round_half_even (q / ulp q) \<le> (k + 1) * P - 1" by simp
  then have "(of_int (round_half_even (q / ulp q)) :: rat) \<le> of_int ((k + 1) * P - 1)"
    by (simp only: of_int_le_iff)
  then have "of_int (round_half_even (q / ulp q)) * ulp q \<le> of_int ((k + 1) * P - 1) * ulp q"
    by (rule mult_right_mono) (simp add: less_imp_le)
  also have "\<dots> = of_int k + 1 - ulp q" using P0 by (simp add: u field_simps)
  also have "\<dots> < of_int k + 1" by simp
  finally have upper: "fl q < of_int k + 1" by (simp add: fl_pos_eq [OF q0])
  have "\<lfloor>fl q\<rfloor> = k" using lower upper by (rule floor_unique)
  then show ?thesis by (simp add: q_def k_def)
qed

text \<open>
  One rounding moves a number by at most the fraction \<open>2 ^ (- 53)\<close> of its magnitude, so
  the percentage \<^verbatim>\<open>Math.round((a / b) * 100)\<close> of integers is an integer nearest to
  the exact \<open>100 a / b\<close>.
\<close>

lemma fl_error_pos:
  assumes "0 < q"
  shows "\<bar>fl q - q\<bar> \<le> q / 2 ^ 53"
proof -
  define m where "m = round_half_even (q / ulp q)"
  have u0: "0 < ulp q" by simp
  have near: "\<bar>of_int m - q / ulp q\<bar> \<le> 1 / 2"
    using round_half_even_near(1) [of "q / ulp q"] round_half_even_near(2) [of "q / ulp q"]
    unfolding m_def by linarith
  have u1: "ulp q \<noteq> 0" by (simp add: ulp_def)
  have "fl q - q = (of_int m - q / ulp q) * ulp q"
    using u1 by (simp add: fl_pos_eq [OF assms] m_def field_simps)
  then have "\<bar>fl q - q\<bar> = \<bar>of_int m - q / ulp q\<bar> * \<bar>ulp q\<bar>"
    by (simp only: abs_mult)
  also have "\<bar>ulp q\<bar> = ulp q" using u0 by (simp only: abs_of_pos)
  finally have "\<bar>fl q - q\<bar> = \<bar>of_int m - q / ulp q\<bar> * ulp q" .
  then have "\<bar>fl q - q\<bar> = \<bar>of_int m - q / ulp q\<bar> * ulp q" .
  also have "\<dots> \<le> 1 / 2 * ulp q"
    by (rule mult_right_mono [OF near less_imp_le [OF u0]])
  also have "\<dots> \<le> q / 2 ^ 53"
  proof -
    have "2 ^ 52 * ulp q \<le> q" using ilog2_bounds(1) [OF assms] ulp_scale(1) [OF assms] by simp
    then show ?thesis by simp
  qed
  finally show ?thesis .
qed

lemma fl_error: "\<bar>fl q - q\<bar> \<le> \<bar>q\<bar> / 2 ^ 53"
proof -
  consider "0 < q" | "q = 0" | "q < 0" by linarith
  then show ?thesis
  proof cases
    case 1
    then show ?thesis using fl_error_pos [of q] by simp
  next
    case 2
    then show ?thesis by simp
  next
    case 3
    then have "\<bar>fl (- q) - (- q)\<bar> \<le> (- q) / 2 ^ 53" by (intro fl_error_pos) simp
    then show ?thesis using 3 by (simp add: fl_minus)
  qed
qed

lemma percent_error:
  "\<bar>js_mul (js_div a b) 100 - a / b * 100\<bar> \<le> 300 * \<bar>a / b\<bar> / 2 ^ 53"
proof -
  define q where "q = a / b"
  define y where "y = fl q"
  define d where "d = \<bar>q\<bar> / 2 ^ 53"
  have e1: "\<bar>y - q\<bar> \<le> d" unfolding y_def d_def by (rule fl_error)
  have d1: "d \<le> \<bar>q\<bar>" unfolding d_def by (simp add: field_simps)
  have y2: "\<bar>y\<bar> \<le> 2 * \<bar>q\<bar>" using e1 d1 by linarith
  have e2: "\<bar>fl (y * 100) - y * 100\<bar> \<le> \<bar>y * 100\<bar> / 2 ^ 53" by (rule fl_error)
  have "\<bar>y * 100\<bar> = 100 * \<bar>y\<bar>" by (simp add: abs_mult)
  then have "\<bar>y * 100\<bar> \<le> 200 * \<bar>q\<bar>" using y2 by linarith
  then have "\<bar>y * 100\<bar> / 2 ^ 53 \<le> 200 * \<bar>q\<bar> / 2 ^ 53" by (rule divide_right_mono) simp
  also have "\<dots> = 200 * d" by (simp add: d_def)
  finally have e3: "\<bar>fl (y * 100) - y * 100\<bar> \<le> 200 * d" using e2 by linarith
  have "y * 100 - q * 100 = (y - q) * 100" by (simp add: algebra_simps)
  then have "\<bar>y * 100 - q * 100\<bar> = \<bar>y - q\<bar> * \<bar>100\<bar>"
    by (simp only: abs_mult)
  then have "\<bar>y * 100 - q * 100\<bar> = 100 * \<bar>y - q\<bar>"
    by simp
  then have e4: "\<bar>y * 100 - q * 100\<bar> \<le> 100 * d" using e1 by linarith
  have "\<bar>fl (y * 100) - q * 100\<bar> \<le> 300 * d"
    using e3 e4 by linarith
  then show ?thesis by (simp add: js_mul_def js_div_def q_def y_def d_def)
qed

lemma Math_round_nearest:
  assumes "0 < p" "\<bar>z - of_int N / of_int p\<bar> < 1 / (2 * of_int p)"
  shows "\<bar>of_int (Math_round z) - (of_int N / of_int p :: rat)\<bar> \<le> 1 / 2"
proof -
  define r where "r = Math_round z"
  define x :: rat where "x = of_int N / of_int p"
  have p0: "0 < (of_int p :: rat)" using assms(1) by simp
  have xp: "x * of_int p = of_int N" using p0 by (simp add: x_def)
  have r1: "of_int r - 1 / 2 \<le> z" and r2: "z < of_int r + 1 / 2"
    unfolding r_def Math_round_def by linarith+
  have lo: "of_int r - 1 / 2 - 1 / (2 * of_int p) < x" and hi: "x < of_int r + 1 / 2 + 1 / (2 * of_int p)"
    using assms(2) r1 r2 unfolding x_def by linarith+
  have x2: "x * (2 * of_int p) = of_int (2 * N)"
  proof -
    have "x * (2 * of_int p) = 2 * (x * of_int p)" by simp
    then show ?thesis by (simp add: xp)
  qed
  have l2: "(of_int r - 1 / 2 - 1 / (2 * of_int p)) * (2 * of_int p) = (of_int ((2 * r - 1) * p - 1) :: rat)"
    using p0 by (simp add: field_simps)
  have h2: "(of_int r + 1 / 2 + 1 / (2 * of_int p)) * (2 * of_int p) = (of_int ((2 * r + 1) * p + 1) :: rat)"
    using p0 by (simp add: field_simps)
  have "(of_int r - 1 / 2 - 1 / (2 * of_int p)) * (2 * of_int p) < x * (2 * of_int p)"
    using lo p0 by (intro mult_strict_right_mono) simp_all
  then have "(of_int ((2 * r - 1) * p - 1) :: rat) < of_int (2 * N)"
    by (simp only: x2 l2)
  then have "(2 * r - 1) * p - 1 < 2 * N" by (simp only: of_int_less_iff)
  then have "(2 * r - 1) * p \<le> 2 * N" by simp
  then have "(of_int ((2 * r - 1) * p) :: rat) \<le> of_int (2 * N)" by (simp only: of_int_le_iff)
  then have "(2 * of_int r - 1) * of_int p \<le> 2 * (x * of_int p)" by (simp add: xp)
  then have "(2 * of_int r - 1) * of_int p \<le> (2 * x) * of_int p" by (simp add: mult.assoc)
  then have a: "2 * of_int r - 1 \<le> 2 * x" using p0 by (simp only: mult_le_cancel_right_pos)
  have "x * (2 * of_int p) < (of_int r + 1 / 2 + 1 / (2 * of_int p)) * (2 * of_int p)"
    using hi p0 by (intro mult_strict_right_mono) simp_all
  then have "(of_int (2 * N) :: rat) < of_int ((2 * r + 1) * p + 1)"
    by (simp only: x2 h2)
  then have "2 * N < (2 * r + 1) * p + 1" by (simp only: of_int_less_iff)
  then have "2 * N \<le> (2 * r + 1) * p" by simp
  then have "(of_int (2 * N) :: rat) \<le> of_int ((2 * r + 1) * p)" by (simp only: of_int_le_iff)
  then have "2 * (x * of_int p) \<le> (2 * of_int r + 1) * of_int p" by (simp add: xp)
  then have "(2 * x) * of_int p \<le> (2 * of_int r + 1) * of_int p" by (simp add: mult.assoc)
  then have b: "2 * x \<le> 2 * of_int r + 1" using p0 by (simp only: mult_le_cancel_right_pos)
  from a b show ?thesis unfolding r_def [symmetric] x_def [symmetric] by linarith
qed

lemma round_unique_nearest:
  assumes "\<bar>of_int r - x\<bar> \<le> 1 / 2" "frac x \<noteq> 1 / 2"
  shows "r = round (x::rat)"
proof -
  have "of_int r \<noteq> x - 1 / 2"
  proof
    assume h: "of_int r = x - 1 / 2"
    then have "x = of_int r + 1 / 2" by simp
    then have "frac x = 1 / 2" by (simp add: frac_unique_iff)
    then show False using assms(2) by simp
  qed
  then have "x - 1 / 2 < of_int r" "of_int r \<le> x + 1 / 2" using assms(1) by linarith+
  then have "\<lfloor>x + 1 / 2\<rfloor> = r" by (intro floor_unique) linarith+
  then show ?thesis by (simp add: round_def)
qed

lemma percent_nearest:
  assumes "0 < p" "\<bar>n\<bar> \<le> 2 ^ 43"
  shows "\<bar>of_int (Math_round (js_mul (js_div (of_int n) (of_int p)) 100))
          - (of_int (n * 100) / of_int p :: rat)\<bar> \<le> 1 / 2"
proof (rule Math_round_nearest [OF assms(1)])
  have p0: "0 < (of_int p :: rat)" using assms(1) by simp
  have "(of_int \<bar>n\<bar> :: rat) \<le> of_int (2 ^ 43)" using assms(2) by (simp only: of_int_le_iff)
  then have n: "\<bar>of_int n :: rat\<bar> \<le> 2 ^ 43" by simp
  have "\<bar>js_mul (js_div (of_int n) (of_int p)) 100 - of_int n / of_int p * 100\<bar>
        \<le> 300 * \<bar>of_int n / of_int p :: rat\<bar> / 2 ^ 53"
    by (rule percent_error)
  also have "\<dots> = (300 * \<bar>of_int n\<bar> / 2 ^ 53) / of_int p"
    using p0 by (simp add: abs_divide)
  also have "\<dots> \<le> (300 * 2 ^ 43 / 2 ^ 53) / of_int p"
    using n p0 by (intro divide_right_mono) simp_all
  also have "\<dots> < (1 / 2) / of_int p"
    using p0 by (intro divide_strict_right_mono) simp_all
  also have "\<dots> = 1 / (2 * of_int p)" by simp
  finally show "\<bar>js_mul (js_div (of_int n) (of_int p)) 100 - of_int (n * 100) / of_int p\<bar>
        < 1 / (2 * of_int p)" by simp
qed

subsection \<open>Digits and clock times\<close>

lemma is_digit_bounds: "is_digit c \<Longrightarrow> 0 \<le> digit_value c \<and> digit_value c \<le> 9"
  by (auto simp: is_digit_def digit_value_def)

lemma is_digit_not_colon: "is_digit c \<Longrightarrow> c \<noteq> CHR '':''"
  by (auto simp: is_digit_def)

lemma digit_char_digit_value: "is_digit c \<Longrightarrow> digit_char (nat (digit_value c)) = c"
proof -
  assume "is_digit c"
  then have "48 + nat (digit_value c) = of_char c"
    unfolding is_digit_def digit_value_def by arith
  then show ?thesis by (simp add: digit_char_def)
qed

lemma char_of_48: "char_of (48::nat) = CHR ''0''"
  by code_simp

lemma digit_value_0: "is_digit c \<Longrightarrow> digit_value c = 0 \<Longrightarrow> c = CHR ''0''"
  using digit_char_digit_value [of c] by (simp add: digit_char_def char_of_48)

lemma Number_two_digits:
  "is_digit a \<Longrightarrow> is_digit b \<Longrightarrow> Number [a, b] = Some (10 * digit_value a + digit_value b)"
  by (simp add: Number_def)

lemma split_time:
  "is_digit h1 \<Longrightarrow> is_digit h0 \<Longrightarrow> is_digit m1 \<Longrightarrow> is_digit m0 \<Longrightarrow>
   split CHR '':'' [h1, h0, CHR '':'', m1, m0] = [[h1, h0], [m1, m0]]"
  by (simp add: is_digit_not_colon)

lemma wf_timeE:
  assumes "wf_time s"
  obtains h1 h0 m1 m0 where "s = [h1, h0, CHR '':'', m1, m0]"
    "is_digit h1" "is_digit h0" "is_digit m1" "is_digit m0"
    "10 * digit_value h1 + digit_value h0 < 24" "10 * digit_value m1 + digit_value m0 < 60"
  using assms by (auto elim!: wf_time.elims)

lemma minute_of_day_range: "wf_time s \<Longrightarrow> 0 \<le> minute_of_day s \<and> minute_of_day s \<le> 1439"
  by (erule wf_timeE) (use is_digit_bounds in fastforce)

lemma timeDifferenceInMinutes_wf_eq:
  assumes "wf_time s" "wf_time e"
  shows "timeDifferenceInMinutes s e =
         Some (if minute_of_day e - minute_of_day s < 0
               then minute_of_day e - minute_of_day s + 1440
               else minute_of_day e - minute_of_day s)"
  using assms
  by (elim wf_timeE)
     (simp add: timeDifferenceInMinutes_def split_time Number_two_digits Let_def
        del: split.simps)

lemma js_rem_nonneg: "0 \<le> a \<Longrightarrow> 0 < b \<Longrightarrow> js_rem a b = a mod b"
  by (cases "a = 0") (simp_all add: js_rem_def)

lemma Math_floor_js_div:
  "0 \<le> a \<Longrightarrow> a < 2 ^ 53 \<Longrightarrow> 0 < b \<Longrightarrow> Math_floor (js_div (of_int a) (of_int b)) = a div b"
  by (simp add: Math_floor_def js_div_def floor_fl_div)

lemma string_of_nat_two:
  assumes "x \<le> 9" "y \<le> 9"
  shows "padStart 2 CHR ''0'' (string_of_nat (10 * x + y))
         = [digit_char x, digit_char y]"
proof (cases "x = 0")
  case True
  then show ?thesis using assms by (simp add: padStart_def digit_char_def char_of_48)
next
  case False
  then have "\<not> 10 * x + y < 10" by simp
  moreover have "(10 * x + y) div 10 = x" "(10 * x + y) mod 10 = y" using assms by simp_all
  ultimately have "string_of_nat (10 * x + y) = string_of_nat x @ [digit_char y]"
    by (subst string_of_nat.simps) simp
  then show ?thesis using assms by (simp add: padStart_def)
qed

lemma render_two_digits:
  assumes "is_digit a" "is_digit b"
  shows "padStart 2 CHR ''0'' (toString (10 * digit_value a + digit_value b)) = [a, b]"
proof -
  define x y where "x = nat (digit_value a)" and "y = nat (digit_value b)"
  have xy: "x \<le> 9" "y \<le> 9" "digit_value a = int x" "digit_value b = int y"
    using is_digit_bounds [OF assms(1)] is_digit_bounds [OF assms(2)] by (auto simp: x_def y_def)
  have "nat (10 * digit_value a + digit_value b) = 10 * x + y"
    by (simp add: xy)
  then have "toString (10 * digit_value a + digit_value b) = string_of_nat (10 * x + y)"
    by (simp add: toString_def xy del: string_of_nat.simps)
  then show ?thesis
    using string_of_nat_two [OF xy(1,2)] digit_char_digit_value [OF assms(1)]
      digit_char_digit_value [OF assms(2)]
    by (simp add: x_def y_def del: string_of_nat.simps)
qed


lemma div60: "0 \<le> M \<Longrightarrow> M < 60 \<Longrightarrow> (K * 60 + M) div 60 = (K::int)"
  by (simp add: div_pos_pos_trivial)

lemma mod60: "0 \<le> M \<Longrightarrow> M < 60 \<Longrightarrow> (K * 60 + M) mod 60 = (M::int)"
  by (simp add: mod_pos_pos_trivial)

lemma Number_split_time:
  assumes "is_digit h1" "is_digit h0" "is_digit m1" "is_digit m0"
  shows "map Number (split CHR '':'' [h1, h0, CHR '':'', m1, m0])
         = [Some (10 * digit_value h1 + digit_value h0), Some (10 * digit_value m1 + digit_value m0)]"
  by (simp only: split_time [OF assms] list.map Number_two_digits assms)

lemma calculateEndTime_wf:
  assumes "wf_time s" "0 \<le> minute_of_day s + d" "minute_of_day s + d < 2 ^ 53"
  shows "calculateEndTime s d =
         Some (padStart 2 CHR ''0'' (toString (((minute_of_day s + d) div 60) mod 24)) @ '':''
               @ padStart 2 CHR ''0'' (toString ((minute_of_day s + d) mod 60)))"
proof -
  from assms(1) obtain h1 h0 m1 m0 where s: "s = [h1, h0, CHR '':'', m1, m0]"
    and dg: "is_digit h1" "is_digit h0" "is_digit m1" "is_digit m0"
    by (rule wf_timeE)
  define t where "t = minute_of_day s + d"
  have t: "(10 * digit_value h1 + digit_value h0) * 60 + (10 * digit_value m1 + digit_value m0) + d = t"
    by (simp add: t_def s)
  have fl: "Math_floor (js_div (of_int t) 60) = t div 60"
    using Math_floor_js_div [of t 60] assms(2,3) by (simp add: t_def)
  have "0 \<le> t div 60" using assms(2) by (simp add: t_def pos_imp_zdiv_nonneg_iff)
  then have h: "js_rem (t div 60) 24 = (t div 60) mod 24" by (simp add: js_rem_nonneg)
  have m: "js_rem t 60 = t mod 60" using assms(2) by (simp add: js_rem_nonneg t_def)
  have "calculateEndTime s d =
        Some (padStart 2 CHR ''0'' (toString (js_rem (Math_floor (js_div (of_int t) 60)) 24)) @ '':''
              @ padStart 2 CHR ''0'' (toString (js_rem t 60)))"
    unfolding calculateEndTime_def s
    by (simp only: Number_split_time [OF dg] list.case option.case Let_def t)
  from this [unfolded fl h m] show ?thesis unfolding t_def .
qed

subsection \<open>The per-tag totals and the ranking loop\<close>

lemma map_get_map_set: "map_get (map_set m k v) k' = (if k' = k then Some v else map_get m k')"
  by (induction m k v rule: map_set.induct) auto

lemma or_zero_simps [simp]: "or_zero None = 0" "or_zero (Some v) = v"
  by (simp_all add: or_zero_def)

lemma map_get_tag_loop:
  "map_get (tag_loop pm d tags) k =
     (if k \<in> set tags then Some (or_zero (map_get pm k) + int (count_list tags k) * d)
      else map_get pm k)"
proof (induction tags arbitrary: pm)
  case Nil
  then show ?case by simp
next
  case (Cons t tags)
  show ?case
    by (simp add: Cons.IH map_get_map_set Let_def algebra_simps)
qed

lemma or_zero_tag_loop:
  "or_zero (map_get (tag_loop pm d tags) k)
     = or_zero (map_get pm k) + int (count_list tags k) * d"
  by (simp add: map_get_tag_loop)

lemma tag_sum_absent:
  "\<forall>a \<in> set acts. k \<notin> set (projectTags a) \<Longrightarrow>
   (\<Sum>a\<leftarrow>acts. int (count_list (projectTags a) k) * durationMinutes a) = 0"
  by (induction acts) (simp_all add: count_list_0_iff)

lemma map_get_activity_loop:
  "map_get (activity_loop pm acts) k =
     (if \<exists>a \<in> set acts. k \<in> set (projectTags a)
      then Some (or_zero (map_get pm k)
                 + (\<Sum>a\<leftarrow>acts. int (count_list (projectTags a) k) * durationMinutes a))
      else map_get pm k)"
proof (induction acts arbitrary: pm)
  case Nil
  then show ?case by simp
next
  case (Cons a acts)
  show ?case
    by (auto simp: Cons.IH map_get_tag_loop or_zero_tag_loop count_list_0_iff tag_sum_absent)
qed

lemma count_list_distinct:
  "distinct xs \<Longrightarrow> count_list xs k = (if k \<in> set xs then 1 else 0)"
  by (induction xs) auto

lemma tag_sum_distinct:
  assumes "\<forall>a \<in> set acts. distinct (projectTags a)"
  shows "(\<Sum>a\<leftarrow>acts. int (count_list (projectTags a) k) * durationMinutes a)
         = (\<Sum>a\<leftarrow>filter (\<lambda>a. k \<in> set (projectTags a)) acts. durationMinutes a)"
  using assms by (induction acts) (simp_all add: count_list_distinct)

lemma max_loop_le:
  "\<forall>(k, v) \<in> set es. v \<le> m0 \<Longrightarrow> max_loop es (m0, p0) = (m0, p0)"
  by (induction es) auto

lemma max_loop_first_max:
  assumes "\<exists>(k, v) \<in> set es. m0 < v"
  shows "\<exists>pre k v post. es = pre @ (k, v) # post \<and> max_loop es (m0, p0) = (v, k)
           \<and> (\<forall>(k', v') \<in> set pre. v' < v) \<and> (\<forall>(k', v') \<in> set post. v' \<le> v) \<and> m0 < v"
  using assms
proof (induction es arbitrary: m0 p0)
  case Nil
  then show ?case by simp
next
  case (Cons e es)
  obtain k1 v1 where e: "e = (k1, v1)" by (cases e)
  show ?case
  proof (cases "m0 < v1")
    case True
    show ?thesis
    proof (cases "\<exists>(k, v) \<in> set es. v1 < v")
      case True
      from Cons.IH [OF True, of k1] obtain pre k v post where
        h: "es = pre @ (k, v) # post" "max_loop es (v1, k1) = (v, k)"
          "\<forall>(k', v') \<in> set pre. v' < v" "\<forall>(k', v') \<in> set post. v' \<le> v" "v1 < v"
        by blast
      have "e # es = ((k1, v1) # pre) @ (k, v) # post" by (simp add: e h(1))
      moreover have "max_loop (e # es) (m0, p0) = (v, k)" using \<open>m0 < v1\<close> by (simp add: e h(2))
      moreover have "\<forall>(k', v') \<in> set ((k1, v1) # pre). v' < v" using h(3,5) by auto
      moreover have "m0 < v" using \<open>m0 < v1\<close> h(5) by simp
      ultimately show ?thesis using h(4) by blast
    next
      case False
      then have le: "\<forall>(k, v) \<in> set es. v \<le> v1" by auto
      have "e # es = [] @ (k1, v1) # es" by (simp add: e)
      moreover have "max_loop (e # es) (m0, p0) = (v1, k1)"
        using \<open>m0 < v1\<close> by (simp add: e max_loop_le [OF le])
      ultimately show ?thesis using le \<open>m0 < v1\<close> by fastforce
    qed
  next
    case False
    with Cons.prems have ex: "\<exists>(k, v) \<in> set es. m0 < v" by (auto simp: e)
    from Cons.IH [OF ex, of p0] obtain pre k v post where
      h: "es = pre @ (k, v) # post" "max_loop es (m0, p0) = (v, k)"
        "\<forall>(k', v') \<in> set pre. v' < v" "\<forall>(k', v') \<in> set post. v' \<le> v" "m0 < v"
      by blast
    have "e # es = ((k1, v1) # pre) @ (k, v) # post" by (simp add: e h(1))
    moreover have "max_loop (e # es) (m0, p0) = (v, k)" using False by (simp add: e h(2))
    moreover have "\<forall>(k', v') \<in> set ((k1, v1) # pre). v' < v" using h(3,5) False by auto
    ultimately show ?thesis using h(4,5) by blast
  qed
qed

lemma keys_map_set:
  "map fst (map_set m k v) = (if k \<in> set (map fst m) then map fst m else map fst m @ [k])"
  by (induction m k v rule: map_set.induct) auto

lemma first_seen_append: "first_seen seen (xs @ ys) = first_seen (first_seen seen xs) ys"
  by (induction xs arbitrary: seen) auto

lemma keys_tag_loop: "map fst (tag_loop pm d tags) = first_seen (map fst pm) tags"
  by (induction tags arbitrary: pm) (auto simp: keys_map_set Let_def)

lemma keys_activity_loop:
  "map fst (activity_loop pm acts) = first_seen (map fst pm) (concat (map projectTags acts))"
  by (induction acts arbitrary: pm) (auto simp: keys_tag_loop first_seen_append)

lemma keys_projectMinutes:
  "map fst (projectMinutes acts) = first_seen [] (concat (map projectTags acts))"
  by (simp add: projectMinutes_def keys_activity_loop)

lemma first_seen_set: "set (first_seen seen xs) = set seen \<union> set xs"
  by (induction xs arbitrary: seen) auto

lemma first_seen_distinct: "distinct seen \<Longrightarrow> distinct (first_seen seen xs)"
  by (induction xs arbitrary: seen) auto

lemma projectMinutes_empty_iff:
  "projectMinutes acts = [] \<longleftrightarrow> (\<forall>a \<in> set acts. projectTags a = [])"
proof -
  have "projectMinutes acts = [] \<longleftrightarrow> set (map fst (projectMinutes acts)) = {}" by simp
  also have "\<dots> \<longleftrightarrow> (\<forall>a \<in> set acts. projectTags a = [])"
    unfolding keys_projectMinutes first_seen_set by auto
  finally show ?thesis .
qed

lemma topProject_of_no_tags:
  "\<forall>a \<in> set acts. projectTags a = [] \<Longrightarrow>
   topProject_of acts = \<lparr>TopProject.name = ''None'', minutes = 0, percentage = 0\<rparr>"
  using projectMinutes_empty_iff [of acts] by (simp add: topProject_of_def Let_def)

lemma topProject_of_first_max:
  assumes "\<exists>(k, v) \<in> set (projectMinutes acts). 0 < v"
  shows "\<exists>pre post. projectMinutes acts
             = pre @ (TopProject.name (topProject_of acts), TopProject.minutes (topProject_of acts)) # post
           \<and> (\<forall>(k', v') \<in> set pre. v' < TopProject.minutes (topProject_of acts))
           \<and> (\<forall>(k', v') \<in> set post. v' \<le> TopProject.minutes (topProject_of acts))"
proof -
  from max_loop_first_max [OF assms, of "''''"] obtain pre k v post where
    h: "projectMinutes acts = pre @ (k, v) # post" "max_loop (projectMinutes acts) (0, '''') = (v, k)"
      "\<forall>(k', v') \<in> set pre. v' < v" "\<forall>(k', v') \<in> set post. v' \<le> v"
    by blast
  have ne: "length (projectMinutes acts) > 0" by (simp add: h(1))
  have "TopProject.name (topProject_of acts) = k" "TopProject.minutes (topProject_of acts) = v"
    using ne by (simp_all add: topProject_of_def Let_def h(2))
  then show ?thesis using h(1,3,4) by blast
qed

subsection \<open>Rendering durations, progress and comparison\<close>

lemma formatMinutes_eq:
  assumes "0 \<le> m" "m < 2 ^ 53"
  shows "formatMinutes m =
           (if m div 60 = 0 then toString (m mod 60) @ ''m''
            else toString (m div 60) @ ''h '' @ toString (m mod 60) @ ''m'')"
  using Math_floor_js_div [of m 60] assms
  by (simp add: formatMinutes_def Let_def js_rem_nonneg)

lemma formatTime_eq:
  assumes "0 \<le> m" "m < 2 ^ 53"
  shows "formatTime m = toString (m div 60) @ ''h '' @ toString (m mod 60) @ ''m''"
  using Math_floor_js_div [of m 60] assms
  by (simp add: formatTime_def Let_def js_rem_nonneg)

lemma formatTime_1440: "formatTime 1440 = ''24h 0m''"
  by code_simp

lemma formats_agree_iff:
  assumes "0 \<le> m" "m < 2 ^ 53"
  shows "formatTime m = formatMinutes m \<longleftrightarrow> 60 \<le> m"
proof (cases "60 \<le> m")
  case True
  then have "m div 60 \<noteq> 0" using assms(1) by (simp add: div_eq_0_iff)
  then show ?thesis using True by (simp add: formatMinutes_eq [OF assms] formatTime_eq [OF assms])
next
  case False
  then have z: "m div 60 = 0" using assms(1) by (simp add: div_pos_pos_trivial)
  have "length (formatTime m) \<noteq> length (formatMinutes m)"
    by (simp add: formatMinutes_eq [OF assms] formatTime_eq [OF assms] z toString_def)
  then have "formatTime m \<noteq> formatMinutes m" by metis
  then show ?thesis using False by simp
qed

lemma Math_round_mono: "x \<le> y \<Longrightarrow> Math_round x \<le> Math_round y"
  by (simp add: Math_round_def floor_mono)

lemma percent_chain_mono:
  "a \<le> b \<Longrightarrow> 0 < c \<Longrightarrow>
   Math_round (js_mul (js_div a c) 100) \<le> Math_round (js_mul (js_div b c) 100)"
  unfolding js_mul_def js_div_def
  by (intro Math_round_mono fl_mono mult_right_mono divide_right_mono) simp_all

lemma fl_1: "fl 1 = 1"
  using fl_of_int [of 1] by simp

lemma fl_100: "fl 100 = 100"
  using fl_of_int [of 100] by simp

lemma Math_round_of_int: "Math_round (of_int n) = n"
  unfolding Math_round_def by (rule floor_unique) simp_all

lemma percent_chain_0: "Math_round (js_mul (js_div 0 c) 100) = 0"
  using Math_round_of_int [of 0] by (simp add: js_mul_def js_div_def)

lemma percent_chain_1: "c \<noteq> 0 \<Longrightarrow> Math_round (js_mul (js_div c c) 100) = 100"
  using Math_round_of_int [of 100] by (simp add: js_mul_def js_div_def fl_1 fl_100)

lemma weekProgress_mono: "w \<le> w' \<Longrightarrow> weekProgress w \<le> weekProgress w'"
  unfolding weekProgress_def weekTargetMinutes_def
  by (intro min.mono percent_chain_mono) simp_all

lemma weekProgress_nonneg: "0 \<le> w \<Longrightarrow> 0 \<le> weekProgress w"
proof -
  assume "0 \<le> w"
  then have "weekProgress 0 \<le> weekProgress w" by (rule weekProgress_mono)
  moreover have "weekProgress 0 = 0"
    using percent_chain_0 [of 1440] by (simp add: weekProgress_def weekTargetMinutes_def)
  ultimately show ?thesis by simp
qed

lemma weekProgress_full: "1440 \<le> w \<Longrightarrow> weekProgress w = 100"
proof -
  assume "1440 \<le> w"
  then have "weekProgress 1440 \<le> weekProgress w" by (rule weekProgress_mono)
  moreover have "weekProgress 1440 = 100"
    using percent_chain_1 [of 1440] by (simp add: weekProgress_def weekTargetMinutes_def)
  moreover have "weekProgress w \<le> 100" by (simp add: weekProgress_def)
  ultimately show ?thesis by simp
qed

lemma weekProgress_nearest:
  assumes "0 \<le> w" "w < 1440"
  shows "\<bar>of_int (weekProgress w) - (of_int (w * 100) / 1440 :: rat)\<bar> \<le> 1 / 2"
proof -
  have "\<bar>w\<bar> \<le> 2 ^ 43" using assms by simp
  from percent_nearest [of 1440 w, OF _ this]
  have n: "\<bar>of_int (Math_round (js_mul (js_div (of_int w) 1440) 100))
          - (of_int (w * 100) / 1440 :: rat)\<bar> \<le> 1 / 2" by simp
  have "(of_int (w * 100) / 1440 :: rat) < 100" using assms(2) by simp
  then have "of_int (Math_round (js_mul (js_div (of_int w) 1440) 100)) < (101 :: rat)"
    using n by linarith
  then have "Math_round (js_mul (js_div (of_int w) 1440) 100) < 101"
    by (metis of_int_less_iff of_int_numeral)
  then have "weekProgress w = Math_round (js_mul (js_div (of_int w) 1440) 100)"
    by (simp add: weekProgress_def weekTargetMinutes_def)
  then show ?thesis using n by simp
qed

lemma weekProgress_exact_when_no_tie:
  assumes "0 \<le> w" "frac (of_int (w * 100) / 1440 :: rat) \<noteq> 1 / 2"
  shows "weekProgress w = weekProgress_exact w"
proof (cases "w < 1440")
  case True
  have x: "(of_int (w * 100) / 1440 :: rat) < 100" using True by simp
  have "weekProgress w = round (of_int (w * 100) / 1440 :: rat)"
    by (rule round_unique_nearest [OF weekProgress_nearest [OF assms(1) True] assms(2)])
  moreover have "round (of_int (w * 100) / 1440 :: rat) \<le> 100"
    using x round_mono [of "of_int (w * 100) / 1440 :: rat" 100] by simp
  ultimately show ?thesis by (simp add: weekProgress_exact_def)
next
  case False
  then have "(100 :: rat) \<le> of_int w / 1440 * 100" by simp
  then have "round (100 :: rat) \<le> round (of_int w / 1440 * 100 :: rat)" by (rule round_mono)
  then have "weekProgress_exact w = 100" by (simp add: weekProgress_exact_def)
  then show ?thesis using False by (simp add: weekProgress_full)
qed

lemma comparedToYesterday_of_nearest:
  assumes "0 < y" "\<bar>t - y\<bar> \<le> 2 ^ 43"
  shows "\<bar>of_int (comparedToYesterday_of t y) - (of_int (t - y) / of_int y * 100 :: rat)\<bar> \<le> 1 / 2"
  using percent_nearest [OF assms] assms(1) by (simp add: comparedToYesterday_of_def)

subsection \<open>Dates\<close>

lemma Day_shift: "Day (d * msPerDay + r) = d + Day r"
  by (simp add: Day_def msPerDay_def)

lemma Day_midnight: "Day (d * msPerDay) = d"
  by (simp add: Day_def msPerDay_def)

lemma TimeWithinDay_midnight: "TimeWithinDay (d * msPerDay) = 0"
  by (simp add: TimeWithinDay_def)

lemma Day_bounds: "Day t * msPerDay \<le> t" "t < Day t * msPerDay + msPerDay"
proof -
  have "t = Day t * msPerDay + t mod msPerDay" by (simp add: Day_def)
  moreover have "0 \<le> t mod msPerDay" "t mod msPerDay < msPerDay" by (simp_all add: msPerDay_def)
  ultimately show "Day t * msPerDay \<le> t" "t < Day t * msPerDay + msPerDay" by linarith+
qed

text \<open>The local midnight of the clock reading, and what the getters return on it.\<close>

text \<open>In a zone without transitions both conversions use the one offset.\<close>

lemma fixed_zone_LocalTime: "transitions z = [] \<Longrightarrow> LocalTime z t = t + initialOffset z * 60000"
  by (simp add: LocalTime_def LocalTZA_def)

lemma fixed_zone_UTC: "transitions z = [] \<Longrightarrow> UTC z t = t - initialOffset z * 60000"
  by (simp add: UTC_def LocalTZA_def offset_for_local_def)

lemma setHours0_valid:
  assumes "transitions z = []" "\<bar>now z\<bar> \<le> 8000000000000000" "\<bar>initialOffset z\<bar> < 1440"
  shows "setHours0 z (now z)
         = Some (Day (LocalTime z (now z)) * msPerDay - initialOffset z * 60000)"
proof -
  define l where "l = LocalTime z (now z)"
  have "\<bar>l\<bar> \<le> 8000000000000000 + 86400000"
    using assms unfolding l_def fixed_zone_LocalTime [OF assms(1)] by linarith
  moreover note Day_bounds [of l]
  ultimately have "\<bar>Day l * msPerDay - initialOffset z * 60000\<bar> \<le> 8640000000000000"
    using assms(3) unfolding msPerDay_def by linarith
  then show ?thesis
    by (simp add: setHours0_def fixed_zone_UTC [OF assms(1)] TimeClip_def l_def)
qed

lemma LocalTime_midnight:
  "transitions z = [] \<Longrightarrow> LocalTime z (d * msPerDay - initialOffset z * 60000) = d * msPerDay"
  by (simp add: fixed_zone_LocalTime)

lemma getDay_midnight:
  "transitions z = [] \<Longrightarrow> getDay z (d * msPerDay - initialOffset z * 60000) = (d + 4) mod 7"
  by (simp add: getDay_def LocalTime_midnight WeekDay_def Day_midnight)

lemma setDate_midnight:
  assumes "transitions z = []"
    and "\<bar>(d - k) * msPerDay - initialOffset z * 60000\<bar> \<le> 8640000000000000"
  shows "setDate z (d * msPerDay - initialOffset z * 60000)
            (getDate z (d * msPerDay - initialOffset z * 60000) - k)
         = Some ((d - k) * msPerDay - initialOffset z * 60000)"
proof -
  have "Day (d * msPerDay) = d" by (rule Day_midnight)
  then have "(Day (d * msPerDay) - (DateFromTime (d * msPerDay) - 1)
              + (DateFromTime (d * msPerDay) - k - 1)) = d - k" by simp
  then show ?thesis
    using assms
    by (simp add: setDate_def getDate_def LocalTime_midnight TimeWithinDay_midnight fixed_zone_UTC
        TimeClip_def Let_def)
qed

lemma toISODate_midnight:
  "toISODate (Some (d * msPerDay - initialOffset z * 60000))
   = Inr (iso_date_of_day (d + Day (- (initialOffset z * 60000))))"
proof -
  have "d * msPerDay - initialOffset z * 60000 = d * msPerDay + - (initialOffset z * 60000)"
    by simp
  then have "Day (d * msPerDay - initialOffset z * 60000) = d + Day (- (initialOffset z * 60000))"
    by (simp only: Day_shift)
  then show ?thesis by (simp add: toISODate_def)
qed

lemma getDateRange_lastWeek_days:
  assumes "transitions z = []" "\<bar>now z\<bar> \<le> 8000000000000000" "\<bar>initialOffset z\<bar> < 1440"
  shows "getDateRange z ''lastWeek'' =
         (let d = Day (LocalTime z (now z));
              w = WeekDay (LocalTime z (now z));
              s = Day (- (initialOffset z * 60000))
          in Inr \<lparr>startDate = iso_date_of_day (d - w - 1 - 6 + s),
                  endDate = iso_date_of_day (d - w - 1 + s)\<rparr>)"
proof -
  define d where "d = Day (LocalTime z (now z))"
  define w where "w = (d + 4) mod 7"
  define off where "off = initialOffset z * 60000"
  have w: "0 \<le> w" "w < 7" by (simp_all add: w_def)
  have today: "setHours0 z (now z) = Some (d * msPerDay - off)"
    unfolding d_def off_def by (rule setHours0_valid [OF assms])
  have "\<bar>LocalTime z (now z)\<bar> \<le> 8000000000000000 + 86400000"
    using assms unfolding fixed_zone_LocalTime [OF assms(1)] by linarith
  then have db: "\<bar>d * msPerDay\<bar> \<le> 8000000000000000 + 2 * 86400000"
    using Day_bounds [of "LocalTime z (now z)"] unfolding d_def msPerDay_def by linarith
  have ob: "\<bar>off\<bar> \<le> 86400000" using assms(3) unfolding off_def by linarith
  have v1: "\<bar>(d - (w + 1)) * msPerDay - off\<bar> \<le> 8640000000000000"
    using db ob w unfolding msPerDay_def by (simp add: algebra_simps)
  have v2: "\<bar>(d - (w + 1) - 6) * msPerDay - off\<bar> \<le> 8640000000000000"
    using db ob w unfolding msPerDay_def by (simp add: algebra_simps)
  have gd: "getDay z (d * msPerDay - off) = w"
    unfolding off_def w_def by (rule getDay_midnight [OF assms(1)])
  have e: "setDate z (d * msPerDay - off) (getDate z (d * msPerDay - off) - w - 1)
           = Some ((d - (w + 1)) * msPerDay - off)"
    using setDate_midnight [OF assms(1), of d "w + 1"] v1 unfolding off_def
    by (simp add: algebra_simps)
  have s: "setDate z ((d - (w + 1)) * msPerDay - off)
             (getDate z ((d - (w + 1)) * msPerDay - off) - 6)
           = Some ((d - (w + 1) - 6) * msPerDay - off)"
    using setDate_midnight [OF assms(1), of "d - (w + 1)" 6] v2 unfolding off_def by simp
  have wd: "WeekDay (LocalTime z (now z)) = w" by (simp add: WeekDay_def w_def d_def)
  have body: "getDateRange z ''lastWeek''
      = range_from (toISODate (Some ((d - (w + 1) - 6) * msPerDay - off)))
                   (toISODate (Some ((d - (w + 1)) * msPerDay - off)))"
    unfolding getDateRange_def today by (simp add: Let_def gd e s)
  have iso: "\<And>n. toISODate (Some (n * msPerDay - off)) = Inr (iso_date_of_day (n + Day (- off)))"
    unfolding off_def by (rule toISODate_midnight)
  have "getDateRange z ''lastWeek''
      = Inr \<lparr>startDate = iso_date_of_day (d - (w + 1) - 6 + Day (- off)),
               endDate = iso_date_of_day (d - (w + 1) + Day (- off))\<rparr>"
    unfolding body iso by (simp add: range_from_def)
  moreover have "d - (w + 1) - 6 + Day (- off) = d - w - 1 - 6 + Day (- off)"
    "d - (w + 1) + Day (- off) = d - w - 1 + Day (- off)" by simp_all
  ultimately show ?thesis
    unfolding Let_def wd d_def [symmetric] off_def [symmetric] by simp
qed

lemma getDateRange_lastWeek_west:
  assumes "transitions z = []"
    and "\<bar>now z\<bar> \<le> 8000000000000000" "- 1440 < initialOffset z" "initialOffset z \<le> 0"
  shows "getDateRange z ''lastWeek'' =
           Inr \<lparr>startDate = iso_date_of_day
                    (Day (LocalTime z (now z)) - WeekDay (LocalTime z (now z)) - 1 - 6),
                 endDate = iso_date_of_day
                    (Day (LocalTime z (now z)) - WeekDay (LocalTime z (now z)) - 1)\<rparr>"
proof -
  have "0 \<le> - (initialOffset z * 60000)" "- (initialOffset z * 60000) < msPerDay"
    using assms(3,4) unfolding msPerDay_def by linarith+
  then have "Day (- (initialOffset z * 60000)) = 0"
    unfolding Day_def by (rule div_pos_pos_trivial)
  moreover have "\<bar>initialOffset z\<bar> < 1440" using assms(3,4) by linarith
  ultimately show ?thesis
    using getDateRange_lastWeek_days [OF assms(1,2)] by (simp add: Let_def)
qed

lemma getDateRange_lastWeek_east:
  assumes "transitions z = []"
    and "\<bar>now z\<bar> \<le> 8000000000000000" "0 < initialOffset z" "initialOffset z < 1440"
  shows "getDateRange z ''lastWeek'' =
           Inr \<lparr>startDate = iso_date_of_day
                    (Day (LocalTime z (now z)) - WeekDay (LocalTime z (now z)) - 1 - 6 - 1),
                 endDate = iso_date_of_day
                    (Day (LocalTime z (now z)) - WeekDay (LocalTime z (now z)) - 1 - 1)\<rparr>"
proof -
  have "- (initialOffset z * 60000) < 0" "- msPerDay \<le> - (initialOffset z * 60000)"
    using assms(3,4) unfolding msPerDay_def by linarith+
  then have "- (initialOffset z * 60000) div msPerDay = - 1"
    unfolding msPerDay_def by (simp add: div_eq_minus1 zdiv_eq_0_iff) 
  then have "Day (- (initialOffset z * 60000)) = - 1" by (simp add: Day_def)
  moreover have "\<bar>initialOffset z\<bar> < 1440" using assms(3,4) by linarith
  ultimately show ?thesis
    using getDateRange_lastWeek_days [OF assms(1,2)] by (simp add: Let_def)
qed

lemma last_week_weekdays:
  "(d - (d + 4) mod 7 - 1 + 4) mod 7 = (6::int)" "(d - (d + 4) mod 7 - 1 - 6 + 4) mod 7 = (0::int)"
  by presburger+

text \<open>
  The day that is the reference day minus its day of the week minus one is a Saturday
  (day 6), and the day six days earlier a Sunday (day 0).
\<close>

lemma last_week_is_sunday_to_saturday:
  "WeekDay ((Day l - WeekDay l - 1) * msPerDay) = 6"
  "WeekDay ((Day l - WeekDay l - 1 - 6) * msPerDay) = 0"
  unfolding WeekDay_def [of "_ * msPerDay"] Day_midnight
  by (simp_all only: WeekDay_def last_week_weekdays)

text \<open>
  Across a change of the offset the dates follow the offset of each day: in London in
  the week after the clocks went forward, the local midnight of the day itself is on the
  previous UTC day, while the midnights of the week before are not.
\<close>

lemma getDateRange_after_clock_change:
  "getDateRange london_week_after_change ''today''
     = Inr \<lparr>startDate = ''2024-04-02'', endDate = ''2024-04-02''\<rparr>"
  "getDateRange london_week_after_change ''lastWeek''
     = Inr \<lparr>startDate = ''2024-03-24'', endDate = ''2024-03-30''\<rparr>"
  by code_simp+

subsection \<open>Facts about the array helpers\<close>

lemma includes_array_iff: "includes_array xs v \<longleftrightarrow> v \<in> set xs"
  by (induction xs) auto

lemma filter_array_eq: "filter_array p xs = filter p xs"
  by (induction xs) auto

section \<open>Claims\<close>

text \<open>
  C1 (the full prior week for \<^verbatim>\<open>lastWeek\<close>). The resolver does its date arithmetic on
  the local midnight and prints the results with \<^verbatim>\<open>toISOString\<close>, that is in UTC. In
  a zone east of Greenwich the local midnight lies on the previous UTC day, so every
  printed date is one day early: at noon on Wednesday 2024-01-10 in Rome the result for
  \<^verbatim>\<open>lastWeek\<close> is Saturday 2023-12-30 to Friday 2024-01-05, whereas the reference date
  minus its day of the week minus one day is Saturday 2024-01-06, and the prior week is
  Sunday 2023-12-31 to Saturday 2024-01-06 (which the same instant gives in a zone at
  UTC). At that input \<^verbatim>\<open>getTodayDate\<close> gives 2024-01-10, and the resolver's own
  \<^verbatim>\<open>today\<close> range gives 2024-01-09. Lemma \<open>getDateRange_lastWeek_west\<close> shows the
  Sunday-to-Saturday span in the zones that keep one offset at or west of Greenwich,
  and \<open>getDateRange_lastWeek_east\<close> the shifted span in those that keep one offset
  east of it.
\<close>

theorem getDateRange_lastWeek_east_of_utc:
  "getDateRange noon_in_rome ''lastWeek''
     = Inr \<lparr>startDate = ''2023-12-30'', endDate = ''2024-01-05''\<rparr>
   \<and> iso_date_of_day (Day (LocalTime noon_in_rome (now noon_in_rome))) = ''2024-01-10''
   \<and> WeekDay (LocalTime noon_in_rome (now noon_in_rome)) = 3
   \<and> getTodayDate noon_in_rome = Inr ''2024-01-10''
   \<and> getDateRange noon_in_rome ''today''
     = Inr \<lparr>startDate = ''2024-01-09'', endDate = ''2024-01-09''\<rparr>
   \<and> getDateRange same_instant_in_utc ''lastWeek''
     = Inr \<lparr>startDate = ''2023-12-31'', endDate = ''2024-01-06''\<rparr>"
  by code_simp

text \<open>
  C2 (the top project is the first tag with the maximum total). The ranking loop starts
  from \<^verbatim>\<open>maxMinutes = 0\<close>, \<^verbatim>\<open>maxProject = ""\<close> and replaces them on a strictly larger
  total only. On a week whose tagged activities all have the duration 0 the mapping is
  not empty, no total exceeds 0, and the ranker returns the empty name with 0 minutes
  instead of the tag with the maximum total. Lemma \<open>topProject_of_first_max\<close> shows
  that the first tag with the maximum total is selected whenever some total is positive
  (in the iteration order of lemma \<open>keys_projectMinutes\<close>: first-seen order), and
  \<open>topProject_of_no_tags\<close> the \<^verbatim>\<open>"None"\<close> result when no activity carries a tag.
\<close>

theorem topProject_of_zero_total:
  "projectMinutes [row_zero] = [(''A'', 0)]
   \<and> topProject_of [row_zero] = \<lparr>TopProject.name = '''', minutes = 0, percentage = 0\<rparr>
   \<and> TopProjectSummary.name (topProject (summary [] [] [row_zero])) = ''''"
  by code_simp

text \<open>
  C3 (per-tag totals), as the code has it: the mapping holds exactly the tags that occur
  on some activity, and assigns to a tag the sum over all activities of the activity's
  full duration, once for every occurrence of the tag among its \<^verbatim>\<open>projectTags\<close>; when
  no activity lists a tag twice, that is the sum of \<^verbatim>\<open>durationMinutes\<close> over the
  activities whose tags include it.
\<close>

theorem projectMinutes_per_tag:
  "map_get (projectMinutes acts) tag =
     (if \<exists>a \<in> set acts. tag \<in> set (projectTags a)
      then Some (\<Sum>a\<leftarrow>acts. int (count_list (projectTags a) tag) * durationMinutes a)
      else None)
   \<and> ((\<forall>a \<in> set acts. distinct (projectTags a)) \<longrightarrow>
        (\<Sum>a\<leftarrow>acts. int (count_list (projectTags a) tag) * durationMinutes a)
        = (\<Sum>a\<leftarrow>filter (\<lambda>a. includes_array (projectTags a) tag) acts. durationMinutes a))"
  by (simp add: projectMinutes_def map_get_activity_loop tag_sum_distinct includes_array_iff)

text \<open>
  The scenario of the specification: 60 minutes on A and 30 minutes on A and B give A 90
  and B 30, and the top project A with 90 minutes and 100 percent.
\<close>

theorem projectMinutes_per_tag_witness:
  "distinct (projectTags row1) \<and> distinct (projectTags row2)
   \<and> map_get (projectMinutes [row1, row2]) ''A'' = Some 90
   \<and> map_get (projectMinutes [row1, row2]) ''B'' = Some 30
   \<and> topProject_of [row1, row2] = \<lparr>TopProject.name = ''A'', minutes = 90, percentage = 100\<rparr>"
proof -
  have "topProject_of [row1, row2] = \<lparr>TopProject.name = ''A'', minutes = 90, percentage = 100\<rparr>"
    by code_simp
  then show ?thesis
    using projectMinutes_per_tag [of "[row1, row2]" "''A''"]
      projectMinutes_per_tag [of "[row1, row2]" "''B''"]
    by (simp add: row1_def row2_def)
qed

text \<open>
  An activity that lists a tag twice adds its duration twice: the total of A is 120, not
  the 60 minutes of the one activity that includes A.
\<close>

theorem projectMinutes_duplicate_tag_counterexample:
  "map_get (projectMinutes [row_dup]) ''A''
     \<noteq> Some (\<Sum>a\<leftarrow>filter (\<lambda>a. includes_array (projectTags a) ''A'') [row_dup]. durationMinutes a)"
  by (simp add: projectMinutes_def row_dup_def Let_def)

text \<open>
  C4. For all well-formed \<^verbatim>\<open>HH:MM\<close> times \<open>s\<close> (start) and \<open>e\<close> (end),
  \<^verbatim>\<open>timeDifferenceInMinutes\<close> returns the end minus the start in minutes when the end
  is not clock-earlier than the start, and that difference plus 1440 when it is (the
  overnight wrap); the result lies in \<open>[0, 1439]\<close>; and the difference of a time with
  itself is 0, not 1440.
\<close>

theorem timeDifferenceInMinutes_overnight:
  assumes "wf_time s" "wf_time e"
  shows "timeDifferenceInMinutes s e
           = Some (if minute_of_day s \<le> minute_of_day e
                   then minute_of_day e - minute_of_day s
                   else minute_of_day e - minute_of_day s + 1440)
         \<and> (\<exists>d. timeDifferenceInMinutes s e = Some d \<and> 0 \<le> d \<and> d \<le> 1439)
         \<and> timeDifferenceInMinutes s s = Some 0"
  using minute_of_day_range [OF assms(1)] minute_of_day_range [OF assms(2)]
  by (auto simp: timeDifferenceInMinutes_wf_eq [OF assms] timeDifferenceInMinutes_wf_eq [OF assms(1) assms(1)])

theorem timeDifferenceInMinutes_overnight_witness:
  "wf_time ''23:30'' \<and> wf_time ''00:15''
   \<and> timeDifferenceInMinutes ''23:30'' ''00:15'' = Some 45
   \<and> timeDifferenceInMinutes ''23:30'' ''23:30'' = Some 0"
  using timeDifferenceInMinutes_overnight [of "''23:30''" "''00:15''"]
  by (simp add: is_digit_def digit_value_def)

text \<open>
  C5 (rendering of durations), as the code has it: for every minute count \<open>m\<close> from 0
  to below \<open>2 ^ 53\<close>, \<^verbatim>\<open>formatMinutes\<close> renders \<^verbatim>\<open>"{h}h {m}m"\<close> with
  \<open>h = m div 60\<close> and \<open>m mod 60\<close>, and \<^verbatim>\<open>"{m}m"\<close> alone when \<open>h = 0\<close>. The summary's
  \<^verbatim>\<open>totalTime\<close> and \<^verbatim>\<open>target\<close> fields are renderings by the handler's own
  \<^verbatim>\<open>formatTime\<close>, which always writes the hours; the two renderings agree exactly from
  60 minutes on, and the target is \<^verbatim>\<open>"24h 0m"\<close>.
\<close>

theorem duration_rendering:
  assumes "0 \<le> m" "m < 2 ^ 53"
  shows "formatMinutes m =
           (if m div 60 = 0 then toString (m mod 60) @ ''m''
            else toString (m div 60) @ ''h '' @ toString (m mod 60) @ ''m'')
       \<and> formatTime m = toString (m div 60) @ ''h '' @ toString (m mod 60) @ ''m''
       \<and> (formatTime m = formatMinutes m \<longleftrightarrow> 60 \<le> m)
       \<and> TodaySummary.totalMinutes (today (summary ta ya wa)) = sumDurations ta
       \<and> TodaySummary.totalTime (today (summary ta ya wa)) = formatTime (sumDurations ta)
       \<and> WeekSummary.totalMinutes (week (summary ta ya wa)) = sumDurations wa
       \<and> WeekSummary.totalTime (week (summary ta ya wa)) = formatTime (sumDurations wa)
       \<and> target (week (summary ta ya wa)) = formatTime 1440
       \<and> formatTime 1440 = ''24h 0m''"
  using formatMinutes_eq [OF assms] formatTime_eq [OF assms] formats_agree_iff [OF assms]
  by (simp add: summary_def Let_def weekTargetMinutes_def formatTime_1440)

theorem duration_rendering_witness:
  "(0::int) \<le> 125 \<and> (125::int) < 2 ^ 53 \<and> formatMinutes 125 = ''2h 5m''
   \<and> formatTime 125 = ''2h 5m''
   \<and> TodaySummary.totalTime (today (summary [row1, row2] [] [])) = ''1h 30m''"
proof -
  have "formatMinutes 125 = ''2h 5m''" "formatTime 125 = ''2h 5m''" "formatTime 90 = ''1h 30m''"
    by code_simp+
  moreover have "sumDurations [row1, row2] = 90" by (simp add: sumDurations_def row1_def row2_def)
  ultimately show ?thesis
    using duration_rendering [of 125 "[row1, row2]" "[]" "[]"] by simp
qed

text \<open>
  On a day with 30 minutes the summary's \<^verbatim>\<open>totalTime\<close> is \<^verbatim>\<open>"0h 30m"\<close>, not the
  \<^verbatim>\<open>"30m"\<close> of \<^verbatim>\<open>formatMinutes\<close>.
\<close>

theorem summary_totalTime_counterexample:
  "TodaySummary.totalTime (today (summary [row_half_hour] [] []))
     \<noteq> formatMinutes (TodaySummary.totalMinutes (today (summary [row_half_hour] [] [])))"
  by code_simp

text \<open>
  C6 (\<^verbatim>\<open>comparedToYesterday\<close>), as the code has it: the value is 0 whenever
  yesterday's total is not positive, so no division by zero takes place (30 against 0
  gives 0). When yesterday's total \<open>y\<close> is positive and today's total \<open>t\<close> differs from
  it by at most \<open>2 ^ 43\<close>, the value is an integer nearest to the exact
  \<open>(t - y) / y * 100\<close>, and it equals the rounded exact value unless that lies exactly
  halfway between two integers; there the binary64 evaluation decides.
\<close>

theorem comparedToYesterday_nearest:
  "(y \<le> 0 \<longrightarrow> comparedToYesterday_of t y = 0)
   \<and> (0 < y \<and> \<bar>t - y\<bar> \<le> 2 ^ 43 \<longrightarrow>
        \<bar>of_int (comparedToYesterday_of t y) - (of_int (t - y) / of_int y * 100 :: rat)\<bar> \<le> 1 / 2
        \<and> (frac (of_int (t - y) / of_int y * 100 :: rat) \<noteq> 1 / 2 \<longrightarrow>
             comparedToYesterday_of t y = percentDelta_exact t y))
   \<and> comparedToYesterday (today (summary ta ya wa))
       = comparedToYesterday_of (sumDurations ta) (sumDurations ya)
   \<and> comparedToYesterday_of 30 0 = 0"
proof -
  have 1: "y \<le> 0 \<longrightarrow> comparedToYesterday_of t y = 0"
    by (simp add: comparedToYesterday_of_def)
  have 2: "0 < y \<and> \<bar>t - y\<bar> \<le> 2 ^ 43 \<longrightarrow>
        \<bar>of_int (comparedToYesterday_of t y) - (of_int (t - y) / of_int y * 100 :: rat)\<bar> \<le> 1 / 2
        \<and> (frac (of_int (t - y) / of_int y * 100 :: rat) \<noteq> 1 / 2 \<longrightarrow>
             comparedToYesterday_of t y = percentDelta_exact t y)"
  proof (intro impI, elim conjE)
    assume h: "0 < y" "\<bar>t - y\<bar> \<le> 2 ^ 43"
    note n = comparedToYesterday_of_nearest [OF h]
    show "\<bar>of_int (comparedToYesterday_of t y) - (of_int (t - y) / of_int y * 100 :: rat)\<bar> \<le> 1 / 2
        \<and> (frac (of_int (t - y) / of_int y * 100 :: rat) \<noteq> 1 / 2 \<longrightarrow>
             comparedToYesterday_of t y = percentDelta_exact t y)"
      using n round_unique_nearest [OF n] h(1) by (simp add: percentDelta_exact_def)
  qed
  have 3: "comparedToYesterday (today (summary ta ya wa))
       = comparedToYesterday_of (sumDurations ta) (sumDurations ya)"
    by (simp add: summary_def Let_def)
  have 4: "comparedToYesterday_of 30 0 = 0" by (simp add: comparedToYesterday_of_def)
  from 1 2 3 4 show ?thesis by blast
qed

theorem comparedToYesterday_nearest_witness:
  "(0::int) < 30 \<and> \<bar>40 - 30 :: int\<bar> \<le> 2 ^ 43
   \<and> frac (of_int (40 - 30) / of_int 30 * 100 :: rat) \<noteq> 1 / 2
   \<and> comparedToYesterday_of 40 30 = 33 \<and> percentDelta_exact 40 30 = 33
   \<and> (0::int) \<le> 0 \<and> comparedToYesterday_of 30 0 = 0"
proof -
  have f: "frac (of_int (40 - 30) / of_int 30 * 100 :: rat) \<noteq> 1 / 2" by code_simp
  have "comparedToYesterday_of 40 30 = 33" "percentDelta_exact 40 30 = 33" by code_simp+
  then show ?thesis
    using f comparedToYesterday_nearest [of 30 40] comparedToYesterday_nearest [of 0 30] by simp
qed

text \<open>
  At 63 minutes against 40 the exact value is 57.5, which rounds to 58; the quotient
  \<^verbatim>\<open>23 / 40\<close> rounds down in binary64, the product is 57.49999999999999, and the
  code returns 57.
\<close>

theorem comparedToYesterday_tie_counterexample:
  "comparedToYesterday_of 63 40 \<noteq> round ((63 - 40) / 40 * 100 :: rat)"
proof -
  have "comparedToYesterday_of 63 40 = 57" by code_simp
  moreover have "round ((63 - 40) / 40 * 100 :: rat) = 58" by (simp add: round_def)
  ultimately show ?thesis by simp
qed

text \<open>
  C7 (\<^verbatim>\<open>weekProgress\<close>), as the code has it: for every non-negative \<open>w\<close> the progress
  lies in \<open>[0, 100]\<close>, is 100 from 1440 minutes on, is monotone non-decreasing in \<open>w\<close>,
  is below the target an integer nearest to the exact \<open>w / 1440 * 100\<close>, and equals
  \<open>min (round (w / 1440 * 100)) 100\<close> unless the exact value lies exactly halfway
  between two integers; there the binary64 evaluation decides.
\<close>

theorem weekProgress_clamped_monotone:
  assumes "0 \<le> w"
  shows "0 \<le> weekProgress w \<and> weekProgress w \<le> 100
       \<and> (1440 \<le> w \<longrightarrow> weekProgress w = 100)
       \<and> (w \<le> w' \<longrightarrow> weekProgress w \<le> weekProgress w')
       \<and> (w < 1440 \<longrightarrow> \<bar>of_int (weekProgress w) - (of_int (w * 100) / 1440 :: rat)\<bar> \<le> 1 / 2)
       \<and> (frac (of_int (w * 100) / 1440 :: rat) \<noteq> 1 / 2 \<longrightarrow> weekProgress w = weekProgress_exact w)
       \<and> progress (week (summary ta ya wa)) = weekProgress (sumDurations wa)"
  using weekProgress_nonneg [OF assms] weekProgress_full [of w] weekProgress_mono [of w w']
    weekProgress_nearest [OF assms] weekProgress_exact_when_no_tie [OF assms]
  by (simp add: summary_def Let_def) (simp add: weekProgress_def)

theorem weekProgress_clamped_monotone_witness:
  "(0::int) \<le> 700 \<and> (700::int) < 1440 \<and> (700::int) \<le> 2000 \<and> (1440::int) \<le> 2000
   \<and> frac (of_int (700 * 100) / 1440 :: rat) \<noteq> 1 / 2
   \<and> weekProgress 700 = 49 \<and> weekProgress_exact 700 = 49 \<and> weekProgress 2000 = 100"
proof -
  have f: "frac (of_int (700 * 100) / 1440 :: rat) \<noteq> 1 / 2" by code_simp
  have "weekProgress 700 = 49" "weekProgress_exact 700 = 49" by code_simp+
  then show ?thesis
    using f weekProgress_clamped_monotone [of 700 2000]
      weekProgress_clamped_monotone [of 2000 2000] by simp
qed

text \<open>
  At 828 minutes the exact value is 57.5, which rounds to 58; the binary64 product is
  57.49999999999999, and the code returns 57.
\<close>

theorem weekProgress_tie_counterexample:
  "weekProgress 828 \<noteq> min (round (828 / 1440 * 100 :: rat)) 100"
proof -
  have "weekProgress 828 = 57" by code_simp
  moreover have "round (828 / 1440 * 100 :: rat) = 58" by (simp add: round_def)
  ultimately show ?thesis by simp
qed

text \<open>
  C8 (determinism of the resolver), as the code has it: \<^verbatim>\<open>getDateRange\<close> takes the
  filter keyword only and reads the reference instant from the system clock, in the
  host's time zone. Its result is determined by the keyword, the host's time zone (its
  offsets and the instants at which they change) and the local calendar day of the clock
  reading: two invocations with the same keyword in the same zone whose clock readings
  fall on the same local day return the same result, whatever the time of day and
  whichever offset is in force at the two readings.
\<close>

theorem getDateRange_same_local_day:
  assumes "initialOffset z = initialOffset z'" and "transitions z = transitions z'"
    and "Day (LocalTime z (now z)) = Day (LocalTime z' (now z'))"
  shows "getDateRange z f = getDateRange z' f"
proof -
  have a: "LocalTZA z = LocalTZA z'"
    using assms(1,2) by (simp add: LocalTZA_def fun_eq_iff)
  have l: "LocalTime z = LocalTime z'" and u: "UTC z = UTC z'"
    by (simp_all add: LocalTime_def UTC_def a fun_eq_iff)
  have today: "setHours0 z (now z) = setHours0 z' (now z')"
    using assms(3) by (simp add: setHours0_def u)
  have g: "getDay z = getDay z'" "getDate z = getDate z'" "setDate z = setDate z'"
    "getFullYear z = getFullYear z'" "getMonth z = getMonth z'" "new_Date_ym1 z = new_Date_ym1 z'"
    by (simp_all add: getDay_def getDate_def setDate_def getFullYear_def getMonth_def
        new_Date_ym1_def l u fun_eq_iff)
  show ?thesis unfolding getDateRange_def today g ..
qed

text \<open>
  In London on 2024-03-31, half an hour before the clocks go forward and eleven hours
  after: the offsets in force differ, the local day is the same, and so is the result.
\<close>

theorem getDateRange_same_local_day_witness:
  "initialOffset london_before_change = initialOffset london_after_change
   \<and> transitions london_before_change = transitions london_after_change
   \<and> Day (LocalTime london_before_change (now london_before_change))
       = Day (LocalTime london_after_change (now london_after_change))
   \<and> now london_before_change \<noteq> now london_after_change
   \<and> LocalTZA london_before_change (now london_before_change) True
       \<noteq> LocalTZA london_after_change (now london_after_change) True
   \<and> getDateRange london_before_change ''lastWeek''
       = getDateRange london_after_change ''lastWeek''
   \<and> getDateRange london_before_change ''lastWeek''
       = Inr \<lparr>startDate = ''2024-03-24'', endDate = ''2024-03-30''\<rparr>
   \<and> getDateRange london_before_change ''today''
       = Inr \<lparr>startDate = ''2024-03-31'', endDate = ''2024-03-31''\<rparr>
   \<and> getDateRange london_after_change ''today''
       = Inr \<lparr>startDate = ''2024-03-31'', endDate = ''2024-03-31''\<rparr>"
proof -
  have h: "initialOffset london_before_change = initialOffset london_after_change"
    "transitions london_before_change = transitions london_after_change"
    "Day (LocalTime london_before_change (now london_before_change))
       = Day (LocalTime london_after_change (now london_after_change))"
    by code_simp+
  have n: "now london_before_change \<noteq> now london_after_change"
    "LocalTZA london_before_change (now london_before_change) True
       \<noteq> LocalTZA london_after_change (now london_after_change) True"
    by code_simp+
  have r: "getDateRange london_before_change ''lastWeek''
       = Inr \<lparr>startDate = ''2024-03-24'', endDate = ''2024-03-30''\<rparr>"
    "getDateRange london_before_change ''today''
       = Inr \<lparr>startDate = ''2024-03-31'', endDate = ''2024-03-31''\<rparr>"
    "getDateRange london_after_change ''today''
       = Inr \<lparr>startDate = ''2024-03-31'', endDate = ''2024-03-31''\<rparr>"
    by code_simp+
  show ?thesis
    using h n r getDateRange_same_local_day [OF h, of "''lastWeek''"] by simp
qed

text \<open>
  The same keyword gives different pairs on two days, and at one instant in two zones:
  the caller supplies neither the instant nor the zone.
\<close>

theorem getDateRange_reads_clock_counterexample:
  "getDateRange noon_in_rome ''today'' \<noteq> getDateRange noon_in_rome_next_day ''today''
   \<and> getDateRange noon_in_rome ''today'' \<noteq> getDateRange same_instant_in_utc ''today''"
  by code_simp

text \<open>
  C9. For every collection of activities and every target tag, the by-tag filter returns
  exactly the activities whose \<^verbatim>\<open>projectTags\<close> contain the tag as an equal string
  (the comparison is by characters, so case-sensitive): the result is the collection
  with the other activities struck out, each kept activity as often as it occurs and in
  the order of the collection; the collection itself is a value and so is unchanged;
  and when nothing matches the result is the empty sequence.
\<close>

theorem getActivitiesByProjectTag_exact:
  "getActivitiesByProjectTag allActivities tagName
     = filter (\<lambda>a. tagName \<in> set (projectTags a)) allActivities
   \<and> subseq (getActivitiesByProjectTag allActivities tagName) allActivities
   \<and> set (getActivitiesByProjectTag allActivities tagName)
       = {a \<in> set allActivities. tagName \<in> set (projectTags a)}
   \<and> ((\<forall>a \<in> set allActivities. tagName \<notin> set (projectTags a))
        \<longrightarrow> getActivitiesByProjectTag allActivities tagName = [])"
  by (simp add: getActivitiesByProjectTag_def filter_array_eq includes_array_iff)

theorem getActivitiesByProjectTag_exact_witness:
  "getActivitiesByProjectTag [row1, row2, row3] ''B'' = [row2]
   \<and> subseq [row2] [row1, row2, row3]
   \<and> ''Z'' \<notin> set (projectTags row1) \<and> ''Z'' \<notin> set (projectTags row2)
   \<and> ''Z'' \<notin> set (projectTags row3)
   \<and> getActivitiesByProjectTag [row1, row2, row3] ''Z'' = []"
  using getActivitiesByProjectTag_exact [of "[row1, row2, row3]" "''B''"]
    getActivitiesByProjectTag_exact [of "[row1, row2, row3]" "''Z''"]
  by (simp add: row1_def row2_def row3_def)

text \<open>
  C10. For all well-formed zero-padded times \<open>s\<close> and \<open>e\<close>, adding the computed
  difference back to the start reproduces the end time, character for character:
  \<^verbatim>\<open>calculateEndTime(s, timeDifferenceInMinutes(s, e)) == e\<close>.
\<close>

theorem calculateEndTime_roundtrip:
  assumes "wf_time s" "wf_time e"
  shows "\<exists>d. timeDifferenceInMinutes s e = Some d \<and> calculateEndTime s d = Some e"
proof -
  define d where "d = (if minute_of_day e - minute_of_day s < 0
                       then minute_of_day e - minute_of_day s + 1440
                       else minute_of_day e - minute_of_day s)"
  have td: "timeDifferenceInMinutes s e = Some d"
    unfolding d_def by (rule timeDifferenceInMinutes_wf_eq [OF assms])
  from assms(2) obtain h1 h0 m1 m0 where e: "e = [h1, h0, CHR '':'', m1, m0]"
    and dg: "is_digit h1" "is_digit h0" "is_digit m1" "is_digit m0"
    and rg: "10 * digit_value h1 + digit_value h0 < 24" "10 * digit_value m1 + digit_value m0 < 60"
    by (rule wf_timeE)
  define H M where "H = 10 * digit_value h1 + digit_value h0"
    and "M = 10 * digit_value m1 + digit_value m0"
  have HM: "0 \<le> H" "H < 24" "0 \<le> M" "M < 60"
    using is_digit_bounds [OF dg(1)] is_digit_bounds [OF dg(2)] is_digit_bounds [OF dg(3)]
      is_digit_bounds [OF dg(4)] rg by (simp_all add: H_def M_def)
  have me: "minute_of_day e = H * 60 + M" by (simp add: H_def M_def e)
  have "\<exists>K. minute_of_day s + d = K * 60 + M \<and> (K = H \<or> K = H + 24)"
  proof (cases "minute_of_day e - minute_of_day s < 0")
    case True
    then have "minute_of_day s + d = (H + 24) * 60 + M" by (simp add: d_def me)
    then show ?thesis by blast
  next
    case False
    then have "minute_of_day s + d = H * 60 + M" by (simp add: d_def me)
    then show ?thesis by blast
  qed
  then obtain K where K: "minute_of_day s + d = K * 60 + M" "K = H \<or> K = H + 24"
    by blast
  have hh: "((minute_of_day s + d) div 60) mod 24 = H"
    using K(2) HM(1,2) by (auto simp: K(1) div60 [OF HM(3,4)] mod_pos_pos_trivial)
  have mm: "(minute_of_day s + d) mod 60 = M"
    by (simp only: K(1) mod60 [OF HM(3,4)])
  have nonneg: "0 \<le> minute_of_day s + d" using K HM by auto
  have "minute_of_day s + d < 2880" using K HM by auto
  then have small: "minute_of_day s + d < 2 ^ 53" by simp
  have "calculateEndTime s d = Some e"
    unfolding calculateEndTime_wf [OF assms(1) nonneg small] hh mm
    by (simp add: H_def M_def render_two_digits dg e)
  with td show ?thesis by blast
qed

theorem calculateEndTime_roundtrip_witness:
  "wf_time ''23:30'' \<and> wf_time ''00:15''
   \<and> (\<exists>d. timeDifferenceInMinutes ''23:30'' ''00:15'' = Some d
          \<and> calculateEndTime ''23:30'' d = Some ''00:15'')"
  using calculateEndTime_roundtrip [of "''23:30''" "''00:15''"]
  by (simp add: is_digit_def digit_value_def)

end
